theory Spec2Isabelle
  imports Complex_Main "HOL-Library.Sublist" "HOL-Library.Log_Nat"
begin

section \<open>FastScribe: the parallel chunk-orchestration engine\<close>

text \<open>
  A shallow embedding of \<^verbatim>\<open>scripts/transcribe_parallel.py\<close>. Python's unbounded
  integers are \<^typ>\<open>int\<close>; Python floats (durations, offsets) are taken as
  \<^typ>\<open>real\<close>, so rounding is not part of the model. A \<^verbatim>\<open>pathlib.Path\<close> is the
  list of its components. The external tools (ffprobe, ffmpeg, Whisper) are parameters of the
  model: every theorem holds for whatever they do.
\<close>

subsection \<open>Paths and the file system\<close>

type_synonym path = "string list"

fun str_nat :: "nat \<Rightarrow> string" where
  "str_nat n = (if n < 10 then [char_of (48 + n)] else str_nat (n div 10) @ [char_of (48 + n mod 10)])"

declare str_nat.simps [simp del]

definition str_int :: "int \<Rightarrow> string" where
  \<comment> \<open>Python's \<^verbatim>\<open>str(i)\<close>, as an f-string formats an integer.\<close>
  "str_int i = (if i < 0 then CHR ''-'' # str_nat (nat (- i)) else str_nat (nat i))"

datatype jval = JInt int | JStr string

type_synonym json = "string \<Rightarrow> jval option"

datatype fdata =
    Text string
  | Json json
  | Media string

datatype node = Dir | File fdata

type_synonym fs = "path \<Rightarrow> node option"

definition exists_path :: "fs \<Rightarrow> path \<Rightarrow> bool" where
  \<comment> \<open>\<^verbatim>\<open>Path.exists()\<close>\<close>
  "exists_path f p = (case f p of None \<Rightarrow> False | Some x \<Rightarrow> True)"

definition is_dir :: "fs \<Rightarrow> path \<Rightarrow> bool" where
  \<comment> \<open>\<^verbatim>\<open>Path.is_dir()\<close>\<close>
  "is_dir f p = (case f p of Some Dir \<Rightarrow> True | _ \<Rightarrow> False)"

definition rmtree :: "path \<Rightarrow> fs \<Rightarrow> fs" where
  \<comment> \<open>\<^verbatim>\<open>shutil.rmtree(d)\<close>: the directory and everything below it.\<close>
  "rmtree d f = (\<lambda>p. if prefix d p then None else f p)"

definition mkdir_parents :: "path \<Rightarrow> fs \<Rightarrow> fs" where
  \<comment> \<open>\<^verbatim>\<open>d.mkdir(parents=True, exist_ok=True)\<close>: every missing ancestor and \<open>d\<close> itself.\<close>
  "mkdir_parents d f = (\<lambda>p. if p \<noteq> [] \<and> prefix p d \<and> \<not> exists_path f p then Some Dir else f p)"

definition parent :: "path \<Rightarrow> path" where
  "parent p = butlast p"

definition open_w :: "fs \<Rightarrow> path \<Rightarrow> fdata \<Rightarrow> fs option" where
  \<comment> \<open>\<^verbatim>\<open>open(p, 'w')\<close> followed by the writes and the close: the file is created or
      truncated and holds the data written; it raises (None) when the parent directory is
      missing or the path is a directory.\<close>
  "open_w f p d = (if is_dir f (parent p) \<and> \<not> is_dir f p then Some (f(p \<mapsto> File d)) else None)"

definition read_file :: "fs \<Rightarrow> path \<Rightarrow> fdata option" where
  "read_file f p = (case f p of Some (File d) \<Rightarrow> Some d | _ \<Rightarrow> None)"

definition read_json :: "fs \<Rightarrow> path \<Rightarrow> json option" where
  \<comment> \<open>\<^verbatim>\<open>json.load(open(p))\<close>: None when opening or parsing raises.\<close>
  "read_json f p = (case read_file f p of Some (Json d) \<Rightarrow> Some d | _ \<Rightarrow> None)"

definition read_media :: "fs \<Rightarrow> path \<Rightarrow> string option" where
  "read_media f p = (case read_file f p of Some (Media m) \<Rightarrow> Some m | _ \<Rightarrow> None)"

definition read_text :: "fs \<Rightarrow> path \<Rightarrow> string option" where
  "read_text f p = (case read_file f p of Some (Text t) \<Rightarrow> Some t | _ \<Rightarrow> None)"

fun universal_newlines :: "string \<Rightarrow> string" where
  \<comment> \<open>What reading in text mode does to line ends (\<^verbatim>\<open>newline=None\<close>): a carriage return
      and line feed, or a carriage return alone, is read as one line feed.\<close>
  "universal_newlines [] = []"
| "universal_newlines [c] = [if c = CHR 0x0D then CHR 0x0A else c]"
| "universal_newlines (c # d # cs) =
     (if c = CHR 0x0D
      then (if d = CHR 0x0A then CHR 0x0A # universal_newlines cs
            else CHR 0x0A # universal_newlines (d # cs))
      else c # universal_newlines (d # cs))"

definition read_text_mode :: "fs \<Rightarrow> path \<Rightarrow> string option" where
  \<comment> \<open>\<^verbatim>\<open>open(p, 'r').read()\<close> on a POSIX system, where writing in text mode leaves a line feed
      as it is. The file is taken to decode in the locale's encoding.\<close>
  "read_text_mode f p = map_option universal_newlines (read_text f p)"

subsection \<open>Floats\<close>

text \<open>
  Python's \<^verbatim>\<open>float\<close> is IEEE 754 binary64: the result of an operation is the exact result
  rounded to the nearest value with a 53-bit significand, ties to the even significand.
  Below \<open>2\<^sup>-\<^sup>1\<^sup>0\<^sup>2\<^sup>2\<close> the spacing stays \<open>2\<^sup>-\<^sup>1\<^sup>0\<^sup>7\<^sup>4\<close> (subnormals). Overflow to infinity
  is left out: the quotient and the products computed here are bounded by the duration
  that was read.
\<close>

definition round_half_even :: "real \<Rightarrow> int" where
  "round_half_even x =
     (let n = \<lfloor>x\<rfloor>; r = x - of_int n
      in if r < 1 / 2 then n else if 1 / 2 < r then n + 1 else if even n then n else n + 1)"

definition pow2 :: "int \<Rightarrow> real" where
  "pow2 k = (if 0 \<le> k then 2 ^ nat k else 1 / 2 ^ nat (- k))"

definition float_exponent :: "real \<Rightarrow> int" where
  \<comment> \<open>For \<open>x > 0\<close>, the \<open>k\<close> with \<open>2\<^sup>k \<le> x < 2\<^sup>k\<^sup>+\<^sup>1\<close>.\<close>
  "float_exponent x =
     (if 1 \<le> x then bitlen \<lfloor>x\<rfloor> - 1
      else let k = bitlen \<lfloor>1 / x\<rfloor> - 1 in if x * 2 ^ nat k = 1 then - k else - k - 1)"

definition binary64 :: "real \<Rightarrow> real" where
  "binary64 x =
     (if x = 0 then 0
      else let quantum = pow2 (max (float_exponent \<bar>x\<bar>) (- 1022) - 52)
           in sgn x * of_int (round_half_even (\<bar>x\<bar> / quantum)) * quantum)"

subsection \<open>The transcriber object\<close>

record transcriber =
  script_dir :: path
  input_dir :: path
  output_dir :: path
  temp_dir :: path
  max_threads :: int
  num_chunk_threads :: int
  lang_code :: string
  cleanup :: bool
  model_size :: string

definition VideoTranscriber_init :: "path \<Rightarrow> int \<Rightarrow> string \<Rightarrow> string \<Rightarrow> transcriber" where
  \<comment> \<open>\<^verbatim>\<open>VideoTranscriber.__init__\<close>; \<open>sd\<close> is the directory above the script's own.\<close>
  "VideoTranscriber_init sd mt ms lc =
     \<lparr> script_dir = sd,
       input_dir = sd @ [''input''],
       output_dir = sd @ [''output''],
       temp_dir = sd @ [''.temp_chunks''],
       max_threads = mt,
       num_chunk_threads = mt,
       lang_code = lc,
       cleanup = True,
       model_size = ms \<rparr>"

subsection \<open>External tools\<close>

record ffmpeg_cmd =
  cmd_input :: path
  cmd_ss :: real
  cmd_t :: "real option"
  cmd_output :: path

datatype ffmpeg_result =
    FfRaised string
  | FfWrote fdata
  | FfNothing

text \<open>
  A run of \<^verbatim>\<open>model.transcribe\<close>: the progress bar it creates (its total and the
  increments it passes to \<^verbatim>\<open>update\<close>; None when it raises before creating one), and
  how it ends: an exception message, or the text of each segment (None for a segment
  without a \<^verbatim>\<open>"text"\<close> key).
\<close>

record transcription =
  bar :: "(int \<times> int list) option"
  ending :: "string + string option list"

text \<open>
  The environment: what ffprobe prints for a file's data, what an ffmpeg command does,
  whether \<^verbatim>\<open>whisper.load_model\<close> raises, what transcribing a chunk file does, and whether
  writing to a file raises after some number of writes.
\<close>

record env =
  ffprobe :: "fdata \<Rightarrow> real option"
  ffmpeg :: "ffmpeg_cmd \<Rightarrow> ffmpeg_result"
  load_model :: "string \<Rightarrow> string option"
  transcribe :: "path \<Rightarrow> string option \<Rightarrow> transcription"
  write_error :: "path \<Rightarrow> (nat \<times> string) option"

subsection \<open>Chunk planning\<close>

definition chunk_file :: "path \<Rightarrow> int \<Rightarrow> path" where
  \<comment> \<open>\<^verbatim>\<open>temp_dir / f"chunk_{i}.mp4"\<close>\<close>
  "chunk_file td i = td @ [''chunk_'' @ str_int i @ ''.mp4'']"

definition py_float :: "int \<Rightarrow> real" where
  \<comment> \<open>The float an integer operand of a float operation is converted to.\<close>
  "py_float i = binary64 (of_int i)"

definition chunk_duration_of :: "real \<Rightarrow> int \<Rightarrow> real" where
  \<comment> \<open>\<^verbatim>\<open>chunk_duration = duration / num_chunks\<close>, a float division.\<close>
  "chunk_duration_of duration num_chunks = binary64 (duration / py_float num_chunks)"

definition create_chunk_cmd :: "path \<Rightarrow> path \<Rightarrow> int \<Rightarrow> real \<Rightarrow> int \<Rightarrow> ffmpeg_cmd" where
  \<comment> \<open>The command \<^verbatim>\<open>create_chunk(chunk_index)\<close> builds: \<^verbatim>\<open>-ss start_time\<close> with
      \<^verbatim>\<open>start_time = (chunk_index - 1) * chunk_duration\<close> (a float product), and
      \<^verbatim>\<open>-t chunk_duration\<close> except for the last chunk.\<close>
  "create_chunk_cmd td video_path num_chunks chunk_duration chunk_index =
     (let start_time = binary64 (py_float (chunk_index - 1) * chunk_duration);
          chunk_output = chunk_file td chunk_index
      in if chunk_index = num_chunks
         then \<lparr> cmd_input = video_path, cmd_ss = start_time, cmd_t = None, cmd_output = chunk_output \<rparr>
         else \<lparr> cmd_input = video_path, cmd_ss = start_time, cmd_t = Some chunk_duration,
                cmd_output = chunk_output \<rparr>)"

subsection \<open>Results and console output\<close>

datatype 'a res = Ret 'a | Exc string

text \<open>The lines a job prints that the properties below are about.\<close>

datatype event =
    EvNoDuration
  | EvChunkError int "string option"
  | EvChunkCreated int real
  | EvChunkDurationUnknown int
  | EvChunkMissing int
  | EvSplitFailed
  | EvSubmit int
  | EvInterrupted
  | EvChunkFailed int "string option"
  | EvTranscriptNotFound int

subsection \<open>Splitting\<close>

definition get_video_duration :: "env \<Rightarrow> fs \<Rightarrow> path \<Rightarrow> real option" where
  \<comment> \<open>None when ffprobe raises, prints nothing or prints \<^verbatim>\<open>N/A\<close>; it prints nothing for
      a path that is not a file.\<close>
  "get_video_duration e f p = (case read_file f p of Some d \<Rightarrow> ffprobe e d | None \<Rightarrow> None)"

definition create_chunk ::
  "env \<Rightarrow> path \<Rightarrow> path \<Rightarrow> int \<Rightarrow> real \<Rightarrow> int \<Rightarrow> fs \<Rightarrow> (int \<times> bool \<times> string option) \<times> fs" where
  \<comment> \<open>\<^verbatim>\<open>subprocess.run(cmd)\<close> inside try/except: only an exception makes the result a failure.\<close>
  "create_chunk e td video_path num_chunks chunk_duration chunk_index f =
     (let cmd = create_chunk_cmd td video_path num_chunks chunk_duration chunk_index in
      case ffmpeg e cmd of
        FfRaised msg \<Rightarrow> ((chunk_index, False, Some msg), f)
      | FfWrote d \<Rightarrow>
          ((chunk_index, True, None),
           (case open_w f (cmd_output cmd) d of Some f' \<Rightarrow> f' | None \<Rightarrow> f))
      | FfNothing \<Rightarrow> ((chunk_index, True, None), f))"

fun create_chunks ::
  "env \<Rightarrow> path \<Rightarrow> path \<Rightarrow> int \<Rightarrow> real \<Rightarrow> int list \<Rightarrow> fs \<Rightarrow> (int \<times> bool \<times> string option) list \<times> fs" where
  \<comment> \<open>All chunks are submitted and all run to their end (the executor's \<^verbatim>\<open>with\<close> block
      waits for them); each writes its own output file only.\<close>
  "create_chunks e td video_path num_chunks chunk_duration [] f = ([], f)"
| "create_chunks e td video_path num_chunks chunk_duration (i # rest) f =
     (let (r, f1) = create_chunk e td video_path num_chunks chunk_duration i f;
          (rs, f2) = create_chunks e td video_path num_chunks chunk_duration rest f1
      in (r # rs, f2))"

fun verify_chunks :: "env \<Rightarrow> path \<Rightarrow> int list \<Rightarrow> fs \<Rightarrow> bool \<times> event list" where
  \<comment> \<open>The "Verifying chunks" loop: a missing file returns False; a file whose duration is
      None or zero (\<^verbatim>\<open>if chunk_dur:\<close> is false) is printed and the loop goes on.\<close>
  "verify_chunks e td [] f = (True, [])"
| "verify_chunks e td (i # rest) f =
     (if exists_path f (chunk_file td i) then
        (let chunk_dur = get_video_duration e f (chunk_file td i);
             line = (case chunk_dur of
                       Some d \<Rightarrow> if d \<noteq> 0 then EvChunkCreated i d else EvChunkDurationUnknown i
                     | None \<Rightarrow> EvChunkDurationUnknown i);
             (ok, printed) = verify_chunks e td rest f
         in (ok, line # printed))
      else (False, [EvChunkMissing i]))"

definition remove_temp :: "transcriber \<Rightarrow> fs \<Rightarrow> fs" where
  \<comment> \<open>\<^verbatim>\<open>if self.temp_dir.exists(): shutil.rmtree(self.temp_dir)\<close>\<close>
  "remove_temp self f = (if exists_path f (temp_dir self) then rmtree (temp_dir self) f else f)"

definition invocation_raises :: "env \<Rightarrow> path \<Rightarrow> path \<Rightarrow> int \<Rightarrow> real \<Rightarrow> int \<Rightarrow> bool" where
  \<comment> \<open>The ffmpeg invocation for chunk \<open>i\<close> raises (a timeout, a missing executable).\<close>
  "invocation_raises e td video_path num_chunks chunk_duration i =
     (case ffmpeg e (create_chunk_cmd td video_path num_chunks chunk_duration i) of
        FfRaised msg \<Rightarrow> True
      | _ \<Rightarrow> False)"

definition split_video_into_chunks ::
  "env \<Rightarrow> transcriber \<Rightarrow> path \<Rightarrow> int \<Rightarrow> fs \<Rightarrow> bool res \<times> event list \<times> fs" where
  \<comment> \<open>Dividing by \<^verbatim>\<open>num_chunks = 0\<close> raises ZeroDivisionError; a negative
      \<^verbatim>\<open>max_workers\<close> makes ThreadPoolExecutor raise ValueError. The first failed result is
      looked for in index order (the source takes completion order; the return value is
      the same).\<close>
  "split_video_into_chunks e self video_path num_chunks f =
     (case get_video_duration e f video_path of
        None \<Rightarrow> (Ret False, [EvNoDuration], f)
      | Some duration \<Rightarrow>
          if num_chunks = 0 then (Exc ''float division by zero'', [], f)
          else
            let chunk_duration = chunk_duration_of duration num_chunks;
                f2 = mkdir_parents (temp_dir self) (remove_temp self f)
            in if num_chunks < 0 then (Exc ''max_workers must be greater than 0'', [], f2)
               else
                 let (results, f3) =
                       create_chunks e (temp_dir self) video_path num_chunks chunk_duration
                         [1..num_chunks] f2
                 in case find (\<lambda>(n, success, err). \<not> success) results of
                      Some (n, success, err) \<Rightarrow> (Ret False, [EvChunkError n err], f3)
                    | None \<Rightarrow>
                        let (ok, printed) = verify_chunks e (temp_dir self) [1..num_chunks] f3
                        in (Ret ok, printed, f3))"

subsection \<open>Progress records\<close>

definition progress_path :: "path \<Rightarrow> int \<Rightarrow> path" where
  \<comment> \<open>\<^verbatim>\<open>temp_dir / f"progress_chunk_{chunk_num}.json"\<close>\<close>
  "progress_path td i = td @ [''progress_chunk_'' @ str_int i @ ''.json'']"

definition py_int :: "real \<Rightarrow> int" where
  \<comment> \<open>\<^verbatim>\<open>int(x)\<close> truncates toward zero.\<close>
  "py_int x = (if x \<ge> 0 then \<lfloor>x\<rfloor> else \<lceil>x\<rceil>)"

definition percent_of :: "int \<Rightarrow> int \<Rightarrow> int" where
  \<comment> \<open>\<^verbatim>\<open>int((current / total * 100) if total > 0 else 0)\<close>\<close>
  "percent_of current tot =
     py_int (if tot > 0 then of_int current / of_int tot * 100 else 0)"

definition progress_data :: "int \<Rightarrow> int \<Rightarrow> int \<Rightarrow> string \<Rightarrow> json" where
  "progress_data chunk current tot status =
     [''chunk'' \<mapsto> JInt chunk, ''current'' \<mapsto> JInt current, ''total'' \<mapsto> JInt tot,
      ''percent'' \<mapsto> JInt (percent_of current tot), ''status'' \<mapsto> JStr status]"

definition write_json :: "path option \<Rightarrow> json \<Rightarrow> fs \<Rightarrow> fs" where
  \<comment> \<open>\<^verbatim>\<open>if progress_file: try: json.dump(...) except: pass\<close>\<close>
  "write_json pf d f =
     (case pf of
        None \<Rightarrow> f
      | Some p \<Rightarrow> (case open_w f p (Json d) of Some f' \<Rightarrow> f' | None \<Rightarrow> f))"

definition get_default :: "json \<Rightarrow> string \<Rightarrow> jval \<Rightarrow> jval" where
  \<comment> \<open>\<^verbatim>\<open>data.get(key, default)\<close>\<close>
  "get_default d k v = (case d k of Some x \<Rightarrow> x | None \<Rightarrow> v)"

subsection \<open>The chunk worker\<close>

record wargs =
  arg_chunk_num :: int
  arg_chunk_file :: path
  arg_output_dir :: path
  arg_model_size :: string
  arg_lang_code :: string
  arg_temp_dir :: "path option"

definition progress_file :: "wargs \<Rightarrow> path option" where
  "progress_file a = map_option (\<lambda>td. progress_path td (arg_chunk_num a)) (arg_temp_dir a)"

definition write_progress :: "wargs \<Rightarrow> int \<Rightarrow> int \<Rightarrow> string \<Rightarrow> fs \<Rightarrow> fs" where
  \<comment> \<open>The local function \<^verbatim>\<open>write_progress(current, total, status)\<close>.\<close>
  "write_progress a current tot status f =
     write_json (progress_file a) (progress_data (arg_chunk_num a) current tot status) f"

definition tqdm_write_progress :: "wargs \<Rightarrow> int \<Rightarrow> int \<Rightarrow> fs \<Rightarrow> fs" where
  \<comment> \<open>\<^verbatim>\<open>TqdmProgressCapture._write_progress\<close>: nothing when the total is zero.\<close>
  "tqdm_write_progress a n tot f =
     (if progress_file a \<noteq> None \<and> tot \<noteq> 0
      then write_json (progress_file a) (progress_data (arg_chunk_num a) n tot ''transcribing'') f
      else f)"

definition tqdm_update :: "int \<Rightarrow> int \<Rightarrow> int \<Rightarrow> int" where
  \<comment> \<open>\<^verbatim>\<open>self.n = min(self.n + n, self.total) if self.total else self.n + n\<close>\<close>
  "tqdm_update tot n k = (if tot \<noteq> 0 then min (n + k) tot else n + k)"

datatype poll = Break | Sleep real

definition gate_poll :: "fs \<Rightarrow> path \<Rightarrow> int \<Rightarrow> poll" where
  \<comment> \<open>One round of the \<^verbatim>\<open>while True\<close> loop that staggers model loading: it breaks when
      the previous chunk's record has \<^verbatim>\<open>percent >= 2\<close>; otherwise (record missing,
      unreadable, percent not a number, percent below 2) it sleeps 0.5 seconds.\<close>
  "gate_poll f td chunk =
     (let previous_chunk_progress = progress_path td (chunk - 1) in
      if exists_path f previous_chunk_progress then
        (case read_json f previous_chunk_progress of
           Some prev_data \<Rightarrow>
             (case get_default prev_data ''percent'' (JInt 0) of
                JInt prev_percent \<Rightarrow> if prev_percent \<ge> 2 then Break else Sleep (1 / 2)
              | JStr _ \<Rightarrow> Sleep (1 / 2))
         | None \<Rightarrow> Sleep (1 / 2))
      else Sleep (1 / 2))"

definition is_space :: "char \<Rightarrow> bool" where
  "is_space c = (of_char c \<in> {9, 10, 11, 12, 13, 28, 29, 30, 31, 32, 133, 160 :: nat})"

definition py_strip :: "string \<Rightarrow> string" where
  \<comment> \<open>\<^verbatim>\<open>str.strip()\<close>\<close>
  "py_strip t = rev (dropWhile is_space (rev (dropWhile is_space t)))"

definition fragment_lines :: "string option list \<Rightarrow> string list" where
  \<comment> \<open>What the loop over the segments writes: the stripped text and a newline, for every
      segment whose stripped text is not empty.\<close>
  "fragment_lines segments =
     map (\<lambda>t. t @ [CHR 0x0A])
       (filter (\<lambda>t. t \<noteq> [])
          (map (\<lambda>segment. py_strip (case segment of Some t \<Rightarrow> t | None \<Rightarrow> [])) segments))"

definition fragment_name :: "int \<Rightarrow> string" where
  "fragment_name i = ''chunk_'' @ str_int i @ ''.txt''"

definition whisper_lang :: "string \<Rightarrow> string option" where
  \<comment> \<open>\<^verbatim>\<open>None if lang_code == "auto" else lang_code\<close>\<close>
  "whisper_lang lc = (if lc = ''auto'' then None else Some lc)"

definition fragment_written :: "env \<Rightarrow> path \<Rightarrow> string list \<Rightarrow> string list \<times> string option" where
  \<comment> \<open>The lines that reach the file, and the exception of the write that raises, if one does.\<close>
  "fragment_written e output_file lines =
     (case write_error e output_file of
        Some (k, msg) \<Rightarrow> if k < length lines then (take k lines, Some msg) else (lines, None)
      | None \<Rightarrow> (lines, None))"

definition open_error :: string where
  "open_error = ''[Errno 2] No such file or directory''"

text \<open>
  The points of \<^verbatim>\<open>transcribe_chunk\<close> between two accesses to the file system or to the
  engine. \<open>PDone\<close> holds the tuple the function returns.
\<close>

datatype wpc =
    PStart
  | PGate
  | PLoading
  | PLoadModel
  | PLoaded
  | PTranscribe
  | PUpdate "string + string option list" int int "int list"
  | PTranscribed "string option list"
  | PMkdir "string option list"
  | PWrite "string option list"
  | PComplete
  | PDone "int \<times> bool \<times> string option"

definition ending_pc :: "wargs \<Rightarrow> string + string option list \<Rightarrow> wpc" where
  \<comment> \<open>An exception anywhere in the \<^verbatim>\<open>try\<close> block becomes \<^verbatim>\<open>(chunk_num, False, str(e))\<close>.\<close>
  "ending_pc a en =
     (case en of
        Inl msg \<Rightarrow> PDone (arg_chunk_num a, False, Some msg)
      | Inr segments \<Rightarrow> PTranscribed segments)"

fun wstep :: "env \<Rightarrow> wargs \<Rightarrow> wpc \<Rightarrow> fs \<Rightarrow> wpc \<times> fs" where
  "wstep e a PStart f =
     (if arg_chunk_num a > 1 \<and> arg_temp_dir a \<noteq> None then PGate else PLoading,
      write_progress a 0 1 ''starting'' f)"
| "wstep e a PGate f =
     (case arg_temp_dir a of
        None \<Rightarrow> (PLoading, f)
      | Some td \<Rightarrow>
          (case gate_poll f td (arg_chunk_num a) of
             Break \<Rightarrow> (PLoading, f)
           | Sleep t \<Rightarrow> (PGate, f)))"
| "wstep e a PLoading f = (PLoadModel, write_progress a 0 1 ''loading_model'' f)"
| "wstep e a PLoadModel f =
     (case load_model e (arg_model_size a) of
        Some msg \<Rightarrow> (PDone (arg_chunk_num a, False, Some msg), f)
      | None \<Rightarrow> (PLoaded, f))"
| "wstep e a PLoaded f = (PTranscribe, write_progress a 0 1 ''model_loaded'' f)"
| "wstep e a PTranscribe f =
     (let t = transcribe e (arg_chunk_file a) (whisper_lang (arg_lang_code a))
      in case bar t of
           None \<Rightarrow> (ending_pc a (ending t), f)
         | Some (tot, updates) \<Rightarrow>
             (PUpdate (ending t) tot 0 updates, tqdm_write_progress a 0 tot f))"
| "wstep e a (PUpdate en tot n (k # updates)) f =
     (PUpdate en tot (tqdm_update tot n k) updates,
      tqdm_write_progress a (tqdm_update tot n k) tot f)"
| "wstep e a (PUpdate en tot n []) f = (ending_pc a en, tqdm_write_progress a n tot f)"
| "wstep e a (PTranscribed segments) f =
     (PMkdir segments, write_progress a 1 1 ''transcribed'' f)"
| "wstep e a (PMkdir segments) f = (PWrite segments, mkdir_parents (arg_output_dir a) f)"
| "wstep e a (PWrite segments) f =
     (let output_file = arg_output_dir a @ [fragment_name (arg_chunk_num a)];
          (written, raised) = fragment_written e output_file (fragment_lines segments)
      in case open_w f output_file (Text (concat written)) of
           None \<Rightarrow> (PDone (arg_chunk_num a, False, Some open_error), f)
         | Some f' \<Rightarrow>
             (case raised of
                Some msg \<Rightarrow> (PDone (arg_chunk_num a, False, Some msg), f')
              | None \<Rightarrow> (PComplete, f')))"
| "wstep e a PComplete f =
     (PDone (arg_chunk_num a, True, None), write_progress a 1 1 ''complete'' f)"
| "wstep e a (PDone r) f = (PDone r, f)"


subsection \<open>The worker pool\<close>

definition output_chunk_dir :: "path \<Rightarrow> int \<Rightarrow> path" where
  \<comment> \<open>\<^verbatim>\<open>temp_dir / f"output_chunk_{i}"\<close>\<close>
  "output_chunk_dir td i = td @ [''output_chunk_'' @ str_int i]"

definition chunk_transcript :: "path \<Rightarrow> int \<Rightarrow> path" where
  \<comment> \<open>\<^verbatim>\<open>temp_dir / f"output_chunk_{i}" / f"chunk_{i}.txt"\<close>\<close>
  "chunk_transcript td i = output_chunk_dir td i @ [fragment_name i]"

definition job_args :: "transcriber \<Rightarrow> int \<Rightarrow> wargs" where
  \<comment> \<open>The arguments \<^verbatim>\<open>process_video\<close> submits for chunk \<open>i\<close>.\<close>
  "job_args self i =
     \<lparr> arg_chunk_num = i,
       arg_chunk_file = chunk_file (temp_dir self) i,
       arg_output_dir = output_chunk_dir (temp_dir self) i,
       arg_model_size = model_size self,
       arg_lang_code = lang_code self,
       arg_temp_dir = Some (temp_dir self) \<rparr>"

definition is_done :: "wpc \<Rightarrow> bool" where
  "is_done pc = (case pc of PDone r \<Rightarrow> True | _ \<Rightarrow> False)"

text \<open>
  The pool: the file system the worker processes share, where each worker stands, and the
  results in the order the futures completed (the order \<^verbatim>\<open>as_completed\<close> yields them).
\<close>

record pool =
  pool_fs :: fs
  pool_pc :: "int \<Rightarrow> wpc"
  pool_results :: "(int \<times> bool \<times> string option) list"

definition pool_step :: "env \<Rightarrow> transcriber \<Rightarrow> int \<Rightarrow> int \<Rightarrow> pool \<Rightarrow> pool" where
  \<comment> \<open>Worker \<open>i\<close> makes its next step.\<close>
  "pool_step e self num_chunks i st =
     (if 1 \<le> i \<and> i \<le> num_chunks then
        (let (pc', f') = wstep e (job_args self i) (pool_pc st i) (pool_fs st) in
         \<lparr> pool_fs = f',
           pool_pc = (pool_pc st)(i := pc'),
           pool_results =
             (case pc' of
                PDone r \<Rightarrow> if is_done (pool_pc st i) then pool_results st else pool_results st @ [r]
              | _ \<Rightarrow> pool_results st) \<rparr>)
      else st)"

definition all_returned :: "int \<Rightarrow> pool \<Rightarrow> bool" where
  "all_returned num_chunks st = list_all (\<lambda>i. is_done (pool_pc st i)) [1..num_chunks]"

text \<open>
  A schedule is the interleaving of the workers' steps, and the moment of a Ctrl+C if there
  is one. The loop over \<^verbatim>\<open>as_completed(futures)\<close> ends when every worker has returned; it
  is still waiting when the schedule ends before that.
\<close>

datatype tick = Step int | CtrlC

datatype pool_end = Completed | Interrupted | Waiting

fun pool_run :: "env \<Rightarrow> transcriber \<Rightarrow> int \<Rightarrow> tick list \<Rightarrow> pool \<Rightarrow> pool_end \<times> pool" where
  "pool_run e self num_chunks [] st =
     (if all_returned num_chunks st then Completed else Waiting, st)"
| "pool_run e self num_chunks (t # rest) st =
     (if all_returned num_chunks st then (Completed, st)
      else case t of
             CtrlC \<Rightarrow> (Interrupted, st)
           | Step i \<Rightarrow> pool_run e self num_chunks rest (pool_step e self num_chunks i st))"

subsection \<open>What a worker leaves behind\<close>

definition fragment_of :: "env \<Rightarrow> wargs \<Rightarrow> string option" where
  \<comment> \<open>The contents of the fragment file of a worker that has returned: none when loading
      the model or transcribing raised, otherwise the lines that were written.\<close>
  "fragment_of e a =
     (case load_model e (arg_model_size a) of
        Some msg \<Rightarrow> None
      | None \<Rightarrow>
          (case ending (transcribe e (arg_chunk_file a) (whisper_lang (arg_lang_code a))) of
             Inl msg \<Rightarrow> None
           | Inr segments \<Rightarrow>
               Some (concat (fst (fragment_written e
                       (arg_output_dir a @ [fragment_name (arg_chunk_num a)])
                       (fragment_lines segments))))))"

definition ordered_fragments :: "env \<Rightarrow> transcriber \<Rightarrow> int \<Rightarrow> string list" where
  \<comment> \<open>The fragments that exist, in ascending chunk index, as they are read.\<close>
  "ordered_fragments e self num_chunks =
     List.map_filter (\<lambda>i. map_option universal_newlines (fragment_of e (job_args self i)))
       [1..num_chunks]"

definition wf_fs :: "fs \<Rightarrow> bool" where
  \<comment> \<open>Every ancestor of an existing path exists.\<close>
  "wf_fs f = (\<forall>p q. exists_path f p \<and> prefix q p \<and> q \<noteq> [] \<longrightarrow> exists_path f q)"

definition fresh :: "wargs \<Rightarrow> fs \<Rightarrow> bool" where
  "fresh a f =
     (\<not> exists_path f (arg_output_dir a)
      \<and> \<not> exists_path f (arg_output_dir a @ [fragment_name (arg_chunk_num a)]))"

definition loaded :: "env \<Rightarrow> wargs \<Rightarrow> bool" where
  "loaded e a = (case load_model e (arg_model_size a) of None \<Rightarrow> True | Some msg \<Rightarrow> False)"

definition transcribed :: "env \<Rightarrow> wargs \<Rightarrow> string option list \<Rightarrow> bool" where
  "transcribed e a segments =
     (loaded e a
      \<and> ending (transcribe e (arg_chunk_file a) (whisper_lang (arg_lang_code a))) = Inr segments)"

fun worker_inv :: "env \<Rightarrow> wargs \<Rightarrow> wpc \<Rightarrow> fs \<Rightarrow> bool" where
  \<comment> \<open>What holds of a worker's own directory and fragment at each point of its run.\<close>
  "worker_inv e a PStart f = fresh a f"
| "worker_inv e a PGate f = fresh a f"
| "worker_inv e a PLoading f = fresh a f"
| "worker_inv e a PLoadModel f = fresh a f"
| "worker_inv e a PLoaded f = (fresh a f \<and> loaded e a)"
| "worker_inv e a PTranscribe f = (fresh a f \<and> loaded e a)"
| "worker_inv e a (PUpdate en tot n updates) f =
     (fresh a f \<and> loaded e a
      \<and> en = ending (transcribe e (arg_chunk_file a) (whisper_lang (arg_lang_code a))))"
| "worker_inv e a (PTranscribed segments) f = (fresh a f \<and> transcribed e a segments)"
| "worker_inv e a (PMkdir segments) f = (fresh a f \<and> transcribed e a segments)"
| "worker_inv e a (PWrite segments) f =
     (is_dir f (arg_output_dir a)
      \<and> \<not> exists_path f (arg_output_dir a @ [fragment_name (arg_chunk_num a)])
      \<and> transcribed e a segments)"
| "worker_inv e a PComplete f =
     (fragment_of e a \<noteq> None
      \<and> read_text f (arg_output_dir a @ [fragment_name (arg_chunk_num a)]) = fragment_of e a)"
| "worker_inv e a (PDone r) f =
     (read_text f (arg_output_dir a @ [fragment_name (arg_chunk_num a)]) = fragment_of e a
      \<and> (exists_path f (arg_output_dir a @ [fragment_name (arg_chunk_num a)])
           \<longleftrightarrow> fragment_of e a \<noteq> None))"

definition pool_inv :: "env \<Rightarrow> transcriber \<Rightarrow> int \<Rightarrow> pool \<Rightarrow> bool" where
  "pool_inv e self num_chunks st =
     (\<forall>i. 1 \<le> i \<and> i \<le> num_chunks \<longrightarrow>
          worker_inv e (job_args self i) (pool_pc st i) (pool_fs st))"

definition pool_init :: "fs \<Rightarrow> pool" where
  \<comment> \<open>Every task submitted, no worker started.\<close>
  "pool_init f = \<lparr> pool_fs = f, pool_pc = (\<lambda>i. PStart), pool_results = [] \<rparr>"


subsection \<open>Combining the transcripts\<close>

fun combine_loop ::
  "path \<Rightarrow> int list \<Rightarrow> fs \<Rightarrow> string \<Rightarrow> event list \<Rightarrow> string \<times> event list \<times> string option" where
  \<comment> \<open>The loop that fills the final transcript: what has been written to \<^verbatim>\<open>outfile\<close>, the
      warnings printed, and the exception of a fragment that exists but cannot be read.\<close>
  "combine_loop td [] f out printed = (out, printed, None)"
| "combine_loop td (i # rest) f out printed =
     (if exists_path f (chunk_transcript td i) then
        (case read_text_mode f (chunk_transcript td i) of
           Some t \<Rightarrow> combine_loop td rest f (out @ t) printed
         | None \<Rightarrow> (out, printed, Some ''[Errno 21] Is a directory''))
      else combine_loop td rest f out (printed @ [EvTranscriptNotFound i]))"

subsection \<open>One job\<close>

definition py_stem :: "string \<Rightarrow> string" where
  \<comment> \<open>\<^verbatim>\<open>Path.stem\<close>: the name without its last suffix.\<close>
  "py_stem name =
     (let rest_rev = dropWhile (\<lambda>c. c \<noteq> CHR ''.'') (rev name);
          suffix_rev = takeWhile (\<lambda>c. c \<noteq> CHR ''.'') (rev name)
      in if rest_rev = [] \<or> suffix_rev = [] \<or> tl rest_rev = [] then name else rev (tl rest_rev))"

definition final_transcript :: "transcriber \<Rightarrow> path \<Rightarrow> path" where
  \<comment> \<open>\<^verbatim>\<open>self.output_dir / f"{name_no_ext}.txt"\<close>\<close>
  "final_transcript self video_path =
     output_dir self @ [py_stem (if video_path = [] then [] else last video_path) @ ''.txt'']"

datatype outcome = Returned bool | Raised string | Blocked

record job =
  job_outcome :: outcome
  job_fs :: fs
  job_log :: "event list"

definition process_video :: "env \<Rightarrow> transcriber \<Rightarrow> path \<Rightarrow> tick list \<Rightarrow> fs \<Rightarrow> job" where
  \<comment> \<open>\<open>Blocked\<close>: the schedule ended while the job was still waiting for a worker.\<close>
  "process_video e self video_path sched f =
     (let num_chunks = num_chunk_threads self;
          split = split_video_into_chunks e self video_path num_chunks f;
          printed = fst (snd split);
          f1 = snd (snd split)
      in case fst split of
           Exc msg \<Rightarrow> \<lparr> job_outcome = Raised msg, job_fs = f1, job_log = printed \<rparr>
         | Ret False \<Rightarrow>
             \<lparr> job_outcome = Returned False, job_fs = f1, job_log = printed @ [EvSplitFailed] \<rparr>
         | Ret True \<Rightarrow>
             (let submitted = printed @ map EvSubmit [1..num_chunks];
                  pool = pool_run e self num_chunks sched (pool_init f1);
                  st = snd pool
              in case fst pool of
                   Waiting \<Rightarrow>
                     \<lparr> job_outcome = Blocked, job_fs = pool_fs st, job_log = submitted \<rparr>
                 | Interrupted \<Rightarrow>
                     \<lparr> job_outcome = Returned False, job_fs = remove_temp self (pool_fs st),
                       job_log = submitted @ [EvInterrupted] \<rparr>
                 | Completed \<Rightarrow>
                     (let failed = map (\<lambda>(n, s, err). EvChunkFailed n err)
                                     (filter (\<lambda>(n, s, err). \<not> s) (pool_results st));
                          combined = combine_loop (temp_dir self) [1..num_chunks] (pool_fs st) [] [];
                          out = fst combined;
                          warnings = fst (snd combined);
                          exc = snd (snd combined)
                      in case open_w (pool_fs st) (final_transcript self video_path) (Text out) of
                           None \<Rightarrow>
                             \<lparr> job_outcome = Raised open_error, job_fs = pool_fs st,
                               job_log = submitted @ failed \<rparr>
                         | Some f2 \<Rightarrow>
                             (case exc of
                                Some msg \<Rightarrow>
                                  \<lparr> job_outcome = Raised msg, job_fs = f2,
                                    job_log = submitted @ failed @ warnings \<rparr>
                              | None \<Rightarrow>
                                  \<lparr> job_outcome = Returned True,
                                    job_fs = (if cleanup self then remove_temp self f2 else f2),
                                    job_log = submitted @ failed @ warnings \<rparr>))))"

subsection \<open>The progress monitor\<close>

record monitor =
  last_percent :: "int \<Rightarrow> int"
  bar_n :: "int \<Rightarrow> int"

definition monitor_init :: monitor where
  \<comment> \<open>Every bar starts at 0 of 100, every last-seen percent at 0.\<close>
  "monitor_init = \<lparr> last_percent = (\<lambda>i. 0), bar_n = (\<lambda>i. 0) \<rparr>"

fun monitor_round :: "path \<Rightarrow> int list \<Rightarrow> fs \<Rightarrow> bool \<times> monitor \<Rightarrow> bool \<times> monitor" where
  \<comment> \<open>One pass of \<^verbatim>\<open>for i in range(1, num_chunks + 1)\<close>. A record that cannot be read, or
      whose percent cannot be compared, raises inside the \<^verbatim>\<open>try\<close>: \<^verbatim>\<open>except: pass\<close>
      leaves \<^verbatim>\<open>all_done\<close> as it is.\<close>
  "monitor_round td [] f (all_done, m) = (all_done, m)"
| "monitor_round td (i # rest) f (all_done, m) =
     (if exists_path f (progress_path td i) then
        (case read_json f (progress_path td i) of
           None \<Rightarrow> monitor_round td rest f (all_done, m)
         | Some data \<Rightarrow>
             (case get_default data ''percent'' (JInt 0) of
                JStr _ \<Rightarrow> monitor_round td rest f (all_done, m)
              | JInt percent \<Rightarrow>
                  (let m1 = (if percent > last_percent m i
                             then \<lparr> last_percent = (last_percent m)(i := percent),
                                    bar_n = (bar_n m)(i := bar_n m i + (percent - last_percent m i)) \<rparr>
                             else m);
                       status = get_default data ''status'' (JStr ''running'')
                   in monitor_round td rest f
                        (if status \<noteq> JStr ''complete'' then False else all_done, m1))))
      else monitor_round td rest f (False, m))"

datatype monitor_end = Exited | Polling

fun monitor_progress :: "path \<Rightarrow> int \<Rightarrow> (fs \<times> bool) list \<Rightarrow> monitor \<Rightarrow> monitor_end \<times> monitor" where
  \<comment> \<open>The \<^verbatim>\<open>while True\<close> loop of the monitor thread, one element per round: the file
      system the round reads and whether \<^verbatim>\<open>stop_monitor\<close> is set when the round ends.
      \<open>Polling\<close>: the loop has not exited after these rounds.\<close>
  "monitor_progress td num_chunks [] m = (Polling, m)"
| "monitor_progress td num_chunks ((f, stop) # rest) m =
     (let (all_done, m1) = monitor_round td [1..num_chunks] f (True, m) in
      if stop \<and> all_done then (Exited, m1) else monitor_progress td num_chunks rest m1)"

subsection \<open>Jobs in flight\<close>

definition job_files :: "transcriber \<Rightarrow> path \<Rightarrow> int \<Rightarrow> path list" where
  \<comment> \<open>The chunk file, progress record and fragment of chunk \<open>i\<close> of the job for
      \<open>video_path\<close>, as \<^verbatim>\<open>process_video\<close> names them.\<close>
  "job_files self video_path i =
     [chunk_file (temp_dir self) i, progress_path (temp_dir self) i,
      chunk_transcript (temp_dir self) i]"

text \<open>
  \<^verbatim>\<open>run\<close> submits one \<^verbatim>\<open>process_video\<close> per video to a ThreadPoolExecutor with
  \<^verbatim>\<open>max_workers = max_threads\<close>: a queued job starts when fewer than \<^verbatim>\<open>max_workers\<close>
  are running, and a running job ends at any time.
\<close>

record executor =
  queued :: "path list"
  running :: "path list"

definition run_init :: "path list \<Rightarrow> executor" where
  "run_init video_files = \<lparr> queued = video_files, running = [] \<rparr>"

inductive run_step :: "transcriber \<Rightarrow> executor \<Rightarrow> executor \<Rightarrow> bool" for self where
  start: "queued x = v # q \<Longrightarrow> int (length (running x)) < max_threads self \<Longrightarrow>
          run_step self x \<lparr> queued = q, running = running x @ [v] \<rparr>"
| finish: "v \<in> set (running x) \<Longrightarrow>
          run_step self x \<lparr> queued = queued x, running = remove1 v (running x) \<rparr>"

inductive run_reach :: "transcriber \<Rightarrow> path list \<Rightarrow> executor \<Rightarrow> bool" for self video_files where
  init: "run_reach self video_files (run_init video_files)"
| step: "run_reach self video_files x \<Longrightarrow> run_step self x y \<Longrightarrow> run_reach self video_files y"


subsection \<open>A sample installation\<close>

definition sample_video :: path where
  "sample_video = [''app'', ''input'', ''talk.mp4'']"

definition sample_fs :: fs where
  "sample_fs =
     [[''app''] \<mapsto> Dir, [''app'', ''input''] \<mapsto> Dir, [''app'', ''output''] \<mapsto> Dir,
      sample_video \<mapsto> File (Media ''video'')]"

definition sample_env :: env where
  \<comment> \<open>Every tool works: ffprobe reports 300 seconds for media that is not empty, ffmpeg
      writes a chunk, the model loads, and transcription reports progress in three updates
      and returns three segments.\<close>
  "sample_env =
     \<lparr> ffprobe = (\<lambda>d. case d of Media m \<Rightarrow> if m = [] then None else Some 300 | _ \<Rightarrow> None),
       ffmpeg = (\<lambda>c. FfWrote (Media ''chunk'')),
       load_model = (\<lambda>m. None),
       transcribe = (\<lambda>p l. \<lparr> bar = Some (10, [3, 3, 4]),
                              ending = Inr [Some '' hello '', None, Some ''world''] \<rparr>),
       write_error = (\<lambda>p. None) \<rparr>"

definition sample_self :: "int \<Rightarrow> transcriber" where
  "sample_self n = VideoTranscriber_init [''app''] n ''base'' ''en''"

definition round_robin :: "nat \<Rightarrow> int \<Rightarrow> tick list" where
  \<comment> \<open>The schedule that lets workers 1 to \<open>n\<close> step in turn, \<open>k\<close> times.\<close>
  "round_robin k n = concat (replicate k (map Step [1..n]))"


definition env_empty_chunk :: env where
  \<comment> \<open>ffmpeg writes chunk files that hold no media.\<close>
  "env_empty_chunk = sample_env\<lparr> ffmpeg := (\<lambda>c. FfWrote (Media [])) \<rparr>"

definition env_ffmpeg_raises :: env where
  \<comment> \<open>Every ffmpeg invocation raises (a timeout).\<close>
  "env_ffmpeg_raises = sample_env\<lparr> ffmpeg := (\<lambda>c. FfRaised ''timed out'') \<rparr>"

subsection \<open>Notions the properties use\<close>

definition transcript_warnings :: "event list \<Rightarrow> int list" where
  \<comment> \<open>The chunk indices of the "Transcript for chunk i not found" warnings, in print order.\<close>
  "transcript_warnings printed =
     List.map_filter (\<lambda>ev. case ev of EvTranscriptNotFound i \<Rightarrow> Some i | _ \<Rightarrow> None) printed"

definition reaches_aggregation :: "env \<Rightarrow> transcriber \<Rightarrow> path \<Rightarrow> tick list \<Rightarrow> fs \<Rightarrow> bool" where
  \<comment> \<open>The split succeeded and every worker returned: the job gets to "Combining transcripts".\<close>
  "reaches_aggregation e self video_path sched f =
     (let split = split_video_into_chunks e self video_path (num_chunk_threads self) f
      in fst split = Ret True
         \<and> fst (pool_run e self (num_chunk_threads self) sched (pool_init (snd (snd split))))
             = Completed)"

definition pool_after :: "env \<Rightarrow> transcriber \<Rightarrow> int \<Rightarrow> int list \<Rightarrow> pool \<Rightarrow> pool" where
  \<comment> \<open>The pool after the workers named in the list have stepped, in that order.\<close>
  "pool_after e self num_chunks steps st = foldl (\<lambda>s i. pool_step e self num_chunks i s) st steps"

definition past_gate :: "wpc \<Rightarrow> bool" where
  \<comment> \<open>The worker has left the staggering loop (or never had to enter it): what follows is
      writing \<^verbatim>\<open>loading_model\<close> and \<^verbatim>\<open>whisper.load_model\<close>.\<close>
  "past_gate pc = (case pc of PStart \<Rightarrow> False | PGate \<Rightarrow> False | _ \<Rightarrow> True)"

definition reports_at_least :: "fs \<Rightarrow> path \<Rightarrow> int \<Rightarrow> int \<Rightarrow> bool" where
  \<comment> \<open>The progress record of chunk \<open>j\<close> can be read and its percent is at least \<open>k\<close>.\<close>
  "reports_at_least f td j k =
     (case read_json f (progress_path td j) of
        Some d \<Rightarrow> (case get_default d ''percent'' (JInt 0) of JInt p \<Rightarrow> k \<le> p | JStr s \<Rightarrow> False)
      | None \<Rightarrow> False)"

definition env_named :: env where
  \<comment> \<open>Every chunk's transcript is the name of its chunk file.\<close>
  "env_named =
     sample_env\<lparr> transcribe :=
       (\<lambda>p l. \<lparr> bar = Some (10, [5, 5]), ending = Inr [Some (if p = [] then [] else last p)] \<rparr>) \<rparr>"

definition env_chunk2_fails :: env where
  \<comment> \<open>As \<open>env_named\<close>, but transcribing chunk 2 raises after half of its progress.\<close>
  "env_chunk2_fails =
     env_named\<lparr> transcribe :=
       (\<lambda>p l. if p = chunk_file (temp_dir (sample_self 3)) 2
              then \<lparr> bar = Some (10, [5]), ending = Inl ''decode error'' \<rparr>
              else transcribe env_named p l) \<rparr>"

definition env_load_fails :: env where
  \<comment> \<open>\<^verbatim>\<open>whisper.load_model\<close> raises in every worker.\<close>
  "env_load_fails = sample_env\<lparr> load_model := (\<lambda>m. Some ''out of memory'') \<rparr>"

definition last_first :: "tick list" where
  \<comment> \<open>A schedule for three chunks in which worker 3 returns first and worker 1 last.\<close>
  "last_first =
     replicate 7 (Step 1) @ replicate 8 (Step 2) @ replicate 20 (Step 3)
     @ replicate 20 (Step 2) @ replicate 20 (Step 1)"

definition sample_fs_old :: fs where
  \<comment> \<open>The sample installation with a transcript left by an earlier run.\<close>
  "sample_fs_old = sample_fs([''app'', ''output'', ''talk.txt''] \<mapsto> File (Text ''old transcript''))"

definition sample_fs_temp :: fs where
  \<comment> \<open>The sample installation once the temporary directory has been created.\<close>
  "sample_fs_temp = mkdir_parents [''app'', ''.temp_chunks''] sample_fs"

definition env_chunk1_fails_early :: env where
  \<comment> \<open>As \<open>env_named\<close>, but transcribing chunk 1 raises before any progress is reported (the
      chunk cannot be decoded).\<close>
  "env_chunk1_fails_early =
     env_named\<lparr> transcribe :=
       (\<lambda>p l. if p = chunk_file (temp_dir (sample_self 2)) 1
              then \<lparr> bar = None, ending = Inl ''decode error'' \<rparr>
              else transcribe env_named p l) \<rparr>"

definition fails_before_progress :: "env \<Rightarrow> wargs \<Rightarrow> bool" where
  \<comment> \<open>The worker's model fails to load, or its transcription raises before it creates a
      progress bar: every record it writes has percent 0.\<close>
  "fails_before_progress e a =
     (case load_model e (arg_model_size a) of
        Some msg \<Rightarrow> True
      | None \<Rightarrow>
          (case bar (transcribe e (arg_chunk_file a) (whisper_lang (arg_lang_code a))) of
             Some b \<Rightarrow> False
           | None \<Rightarrow>
               (case ending (transcribe e (arg_chunk_file a) (whisper_lang (arg_lang_code a))) of
                  Inl msg \<Rightarrow> True
                | Inr segments \<Rightarrow> False)))"

definition early_pc :: "env \<Rightarrow> wargs \<Rightarrow> wpc \<Rightarrow> bool" where
  \<comment> \<open>Where a worker that fails before any progress can stand.\<close>
  "early_pc e a pc =
     (pc = PStart \<or> pc = PGate \<or> pc = PLoading \<or> pc = PLoadModel
      \<or> (loaded e a \<and> (pc = PLoaded \<or> pc = PTranscribe))
      \<or> (\<exists>msg. pc = PDone (arg_chunk_num a, False, Some msg)))"

definition stuck :: "env \<Rightarrow> transcriber \<Rightarrow> int \<Rightarrow> pool \<Rightarrow> bool" where
  \<comment> \<open>Worker \<open>k\<close> has not reported 2 percent and never will; worker \<open>k + 1\<close> has not passed the
      gate.\<close>
  "stuck e self k st =
     (early_pc e (job_args self k) (pool_pc st k)
      \<and> (pool_pc st (k + 1) = PStart \<or> pool_pc st (k + 1) = PGate)
      \<and> \<not> reports_at_least (pool_fs st) (temp_dir self) k 2)"

definition sample_video2 :: path where
  "sample_video2 = [''app'', ''input'', ''demo.mp4'']"

definition sample_fs2 :: fs where
  \<comment> \<open>The sample installation with a second video.\<close>
  "sample_fs2 = sample_fs(sample_video2 \<mapsto> File (Media ''video2''))"

definition env_tagged :: env where
  \<comment> \<open>ffmpeg writes, as the chunk, the name of the video it was given.\<close>
  "env_tagged =
     sample_env\<lparr> ffmpeg :=
       (\<lambda>c. FfWrote (Media (if cmd_input c = [] then [] else last (cmd_input c)))) \<rparr>"

definition env_disk_full :: env where
  \<comment> \<open>Every write to a fragment file raises.\<close>
  "env_disk_full = env_named\<lparr> write_error := (\<lambda>p. Some (0, ''No space left on device'')) \<rparr>"

subsection \<open>The chunk plan of the specification\<close>

definition spec_chunk_plan :: "real \<Rightarrow> int \<Rightarrow> (real \<times> real option) list" where
  \<comment> \<open>In the words of the specification, over the exact reals: \<open>N\<close> specs, spec \<open>i\<close> with start
      \<open>(i - 1) * T / N\<close> and duration \<open>T / N\<close>, the last one with no duration. It is compared
      below with the commands that \<^verbatim>\<open>split_video_into_chunks\<close> runs.\<close>
  "spec_chunk_plan T N =
     map (\<lambda>i. (of_int (i - 1) * T / of_int N, if i < N then Some (T / of_int N) else None)) [1..N]"

definition nearest_float :: "real \<times> real option \<Rightarrow> real \<times> real option" where
  \<comment> \<open>A spec of exact values as the floats nearest to them.\<close>
  "nearest_float spec = (binary64 (fst spec), map_option binary64 (snd spec))"

definition float_exact :: "real \<Rightarrow> int \<Rightarrow> bool" where
  \<comment> \<open>No operation of the split rounds: the quotient, the indices and the products are
      floats.\<close>
  "float_exact T N =
     (binary64 (T / of_int N) = T / of_int N
      \<and> list_all (\<lambda>i. binary64 (of_int i) = of_int i
                       \<and> binary64 (of_int i * (T / of_int N)) = of_int i * (T / of_int N)) [0..N])"

definition spec_tag :: "real \<Rightarrow> int \<Rightarrow> ffmpeg_cmd \<Rightarrow> string" where
  \<comment> \<open>Which spec of the plan, read as nearest floats, a command's \<^verbatim>\<open>-ss\<close> and \<^verbatim>\<open>-t\<close> are.\<close>
  "spec_tag T N c =
     (case find (\<lambda>i. nearest_float (spec_chunk_plan T N ! nat (i - 1)) = (cmd_ss c, cmd_t c)) [1..N] of
        Some i \<Rightarrow> ''spec '' @ str_int i
      | None \<Rightarrow> ''off plan'')"

definition env_plan :: "real \<Rightarrow> int \<Rightarrow> env" where
  \<comment> \<open>The source lasts \<open>T\<close> seconds, and ffmpeg writes into each chunk which spec of the plan
      its command was.\<close>
  "env_plan T N =
     sample_env\<lparr> ffprobe := (\<lambda>d. case d of Media m \<Rightarrow> Some T | _ \<Rightarrow> None),
                 ffmpeg := (\<lambda>c. FfWrote (Media (spec_tag T N c))) \<rparr>"

definition aggregation_fs :: "env \<Rightarrow> transcriber \<Rightarrow> path \<Rightarrow> tick list \<Rightarrow> fs \<Rightarrow> fs" where
  \<comment> \<open>The file system when the pool has completed: what the combining loop reads.\<close>
  "aggregation_fs e self video_path sched f =
     pool_fs (snd (pool_run e self (num_chunk_threads self) sched
       (pool_init (snd (snd (split_video_into_chunks e self video_path (num_chunk_threads self) f))))))"

definition env_cr :: env where
  \<comment> \<open>The one segment of every chunk has a carriage return inside its text.\<close>
  "env_cr =
     sample_env\<lparr> transcribe :=
       (\<lambda>p l. \<lparr> bar = Some (10, [5, 5]), ending = Inr [Some [CHR ''a'', CHR 0x0D, CHR ''b'']] \<rparr>) \<rparr>"

section \<open>Theorems\<close>

subsection \<open>Paths\<close>

lemma digit_inj: "a < 10 \<Longrightarrow> b < 10 \<Longrightarrow> (char_of (48 + a) :: char) = char_of (48 + b) \<Longrightarrow> a = (b::nat)"
proof -
  assume a: "a < 10" and b: "b < 10" and eq: "(char_of (48 + a) :: char) = char_of (48 + b)"
  from eq have "of_char (char_of (48 + a) :: char) = (of_char (char_of (48 + b) :: char) :: nat)" by simp
  then have "(48 + a) mod 256 = (48 + b) mod 256" by (simp only: of_char_of)
  with a b show "a = b" by simp
qed

lemma str_nat_nonempty: "str_nat n \<noteq> []"
  by (subst str_nat.simps) simp

lemma str_nat_last: "last (str_nat n) = char_of (48 + n mod 10)"
  by (subst str_nat.simps) simp

lemma str_nat_butlast: "butlast (str_nat n) = (if n < 10 then [] else str_nat (n div 10))"
  by (subst str_nat.simps) simp

lemma str_nat_inj: "str_nat n = str_nat m \<Longrightarrow> n = m"
proof (induction n arbitrary: m rule: str_nat.induct)
  case (1 n)
  from "1.prems" have l: "last (str_nat n) = last (str_nat m)"
    and b: "butlast (str_nat n) = butlast (str_nat m)" by simp_all
  from l have d: "n mod 10 = m mod 10"
    using digit_inj [of "n mod 10" "m mod 10"] by (simp add: str_nat_last)
  show ?case
  proof (cases "n < 10")
    case True
    with b have "m < 10" using str_nat_nonempty [of "m div 10"]
      by (auto simp add: str_nat_butlast split: if_splits)
    with True d show ?thesis by simp
  next
    case False
    with b have m: "\<not> m < 10" using str_nat_nonempty [of "n div 10"]
      by (auto simp add: str_nat_butlast split: if_splits)
    with False b have "str_nat (n div 10) = str_nat (m div 10)" by (simp add: str_nat_butlast)
    with "1.IH" False have "n div 10 = m div 10" by simp
    with d show ?thesis by (metis div_mult_mod_eq)
  qed
qed

lemma str_nat_no_minus: "CHR ''-'' \<notin> set (str_nat n)"
proof (induction n rule: str_nat.induct)
  case (1 n)
  have dig: "(char_of (48 + k) :: char) \<noteq> CHR ''-''" if "k < 10" for k :: nat
  proof
    assume "(char_of (48 + k) :: char) = CHR ''-''"
    then have "of_char (char_of (48 + k) :: char) = (of_char CHR ''-'' :: nat)" by simp
    then have "(48 + k) mod 256 = 45" by (simp only: of_char_of) simp
    with that show False by simp
  qed
  show ?case
  proof (cases "n < 10")
    case True
    then show ?thesis using dig [of n] by (subst str_nat.simps) auto
  next
    case False
    then show ?thesis using dig [of "n mod 10"] "1.IH"
      by (subst str_nat.simps) auto
  qed
qed

lemma str_int_inj: "str_int i = str_int j \<Longrightarrow> i = j"
proof -
  assume eq: "str_int i = str_int j"
  have hd_pos: "hd (str_nat n) \<noteq> CHR ''-''" for n
    using str_nat_no_minus [of n] str_nat_nonempty [of n] by (metis hd_in_set)
  show "i = j"
  proof (cases "i < 0"; cases "j < 0")
    assume "i < 0" "j < 0"
    with eq have "str_nat (nat (- i)) = str_nat (nat (- j))" by (simp add: str_int_def)
    then have "nat (- i) = nat (- j)" by (rule str_nat_inj)
    with \<open>i < 0\<close> \<open>j < 0\<close> show ?thesis by simp
  next
    assume "i < 0" "\<not> j < 0"
    with eq have "CHR ''-'' # str_nat (nat (- i)) = str_nat (nat j)" by (simp add: str_int_def)
    then have "hd (str_nat (nat j)) = CHR ''-''" by (metis list.sel(1))
    with hd_pos show ?thesis by blast
  next
    assume "\<not> i < 0" "j < 0"
    with eq have "CHR ''-'' # str_nat (nat (- j)) = str_nat (nat i)" by (simp add: str_int_def)
    then have "hd (str_nat (nat i)) = CHR ''-''" by (metis list.sel(1))
    with hd_pos show ?thesis by blast
  next
    assume "\<not> i < 0" "\<not> j < 0"
    with eq have "str_nat (nat i) = str_nat (nat j)" by (simp add: str_int_def)
    then have "nat i = nat j" by (rule str_nat_inj)
    with \<open>\<not> i < 0\<close> \<open>\<not> j < 0\<close> show ?thesis by simp
  qed
qed

lemma str_int_eq [simp]: "str_int i = str_int j \<longleftrightarrow> i = j"
  using str_int_inj by blast

lemma path_distinct [simp]:
  "progress_path td i \<noteq> output_chunk_dir td j"
  "progress_path td i \<noteq> chunk_transcript td j"
  "progress_path td i \<noteq> chunk_file td j"
  "chunk_file td i \<noteq> output_chunk_dir td j"
  "chunk_file td i \<noteq> chunk_transcript td j"
  "chunk_file td i \<noteq> progress_path td j"
  "chunk_transcript td i \<noteq> output_chunk_dir td j"
  "chunk_transcript td i \<noteq> progress_path td j"
  "chunk_transcript td i \<noteq> chunk_file td j"
  "output_chunk_dir td j \<noteq> chunk_transcript td i"
  "output_chunk_dir td j \<noteq> progress_path td i"
  "output_chunk_dir td j \<noteq> chunk_file td i"
  "\<not> prefix (chunk_transcript td i) (output_chunk_dir td j)"
  "\<not> prefix (progress_path td i) (output_chunk_dir td j)"
  "\<not> prefix (chunk_file td i) (output_chunk_dir td j)"
  by (simp_all add: progress_path_def output_chunk_dir_def chunk_transcript_def chunk_file_def)

lemma path_inj [simp]:
  "progress_path td i = progress_path td j \<longleftrightarrow> i = j"
  "output_chunk_dir td i = output_chunk_dir td j \<longleftrightarrow> i = j"
  "chunk_transcript td i = chunk_transcript td j \<longleftrightarrow> i = j"
  "chunk_file td i = chunk_file td j \<longleftrightarrow> i = j"
  "prefix (output_chunk_dir td i) (output_chunk_dir td j) \<longleftrightarrow> i = j"
  by (auto simp add: progress_path_def output_chunk_dir_def chunk_transcript_def chunk_file_def
       fragment_name_def)

subsection \<open>File system operations\<close>

lemma exists_path_upd [simp]: "exists_path (f(p \<mapsto> x)) q = (q = p \<or> exists_path f q)"
  by (simp add: exists_path_def)

lemma open_w_frame: "open_w f p d = Some f' \<Longrightarrow> q \<noteq> p \<Longrightarrow> f' q = f q"
  by (auto simp add: open_w_def split: if_splits)

lemma write_json_frame: "pf \<noteq> Some q \<Longrightarrow> write_json pf d f q = f q"
  by (auto simp add: write_json_def open_w_def split: option.splits if_splits)

lemma mkdir_parents_frame: "\<not> prefix q d \<Longrightarrow> mkdir_parents d f q = f q"
  by (simp add: mkdir_parents_def)

subsection \<open>What a worker's step changes\<close>

lemma progress_file_job [simp]:
  "progress_file (job_args self i) = Some (progress_path (temp_dir self) i)"
  by (simp add: progress_file_def job_args_def)

lemma job_args_simps [simp]:
  "arg_chunk_num (job_args self i) = i"
  "arg_chunk_file (job_args self i) = chunk_file (temp_dir self) i"
  "arg_output_dir (job_args self i) = output_chunk_dir (temp_dir self) i"
  "arg_model_size (job_args self i) = model_size self"
  "arg_lang_code (job_args self i) = lang_code self"
  "arg_temp_dir (job_args self i) = Some (temp_dir self)"
  by (simp_all add: job_args_def)

lemma wstep_frame:
  assumes "q \<noteq> progress_path (temp_dir self) i"
    and "\<not> prefix q (output_chunk_dir (temp_dir self) i)"
    and "q \<noteq> chunk_transcript (temp_dir self) i"
  shows "snd (wstep e (job_args self i) pc f) q = f q"
proof (cases pc)
  case (PUpdate en tot n ups)
  then show ?thesis using assms
    by (cases ups) (simp_all add: tqdm_write_progress_def write_json_frame)
next
  case (PWrite segs)
  then show ?thesis using assms
    by (auto simp add: chunk_transcript_def Let_def split: prod.splits option.splits
          dest: open_w_frame)
next
  case PTranscribe
  then show ?thesis using assms
    by (auto simp add: tqdm_write_progress_def write_json_frame Let_def split: option.splits)
next
  case PGate
  then show ?thesis by (simp split: poll.splits)
next
  case PLoadModel
  then show ?thesis by (simp split: option.splits)
qed (use assms in \<open>simp_all add: write_progress_def write_json_frame mkdir_parents_frame\<close>)

lemma worker_inv_frame:
  assumes "f' (arg_output_dir a) = f (arg_output_dir a)"
    and "f' (arg_output_dir a @ [fragment_name (arg_chunk_num a)])
         = f (arg_output_dir a @ [fragment_name (arg_chunk_num a)])"
  shows "worker_inv e a pc f' = worker_inv e a pc f"
  using assms
  by (cases pc) (simp_all add: fresh_def exists_path_def is_dir_def read_text_def read_file_def)

lemma write_progress_other [simp]:
  "q \<noteq> progress_path (temp_dir self) i \<Longrightarrow>
     write_progress (job_args self i) c t s f q = f q"
  by (simp add: write_progress_def write_json_frame)

lemma tqdm_write_progress_other [simp]:
  "q \<noteq> progress_path (temp_dir self) i \<Longrightarrow>
     tqdm_write_progress (job_args self i) n t f q = f q"
  by (simp add: tqdm_write_progress_def write_json_frame)

lemma fresh_cong:
  "f' (arg_output_dir a) = f (arg_output_dir a) \<Longrightarrow>
   f' (arg_output_dir a @ [fragment_name (arg_chunk_num a)])
     = f (arg_output_dir a @ [fragment_name (arg_chunk_num a)]) \<Longrightarrow>
   fresh a f' = fresh a f"
  by (simp add: fresh_def exists_path_def)

lemma fresh_write_progress [simp]:
  "fresh (job_args self i) (write_progress (job_args self i) c t s f) = fresh (job_args self i) f"
  by (rule fresh_cong) (simp_all add: chunk_transcript_def [symmetric])

lemma fresh_tqdm_write_progress [simp]:
  "fresh (job_args self i) (tqdm_write_progress (job_args self i) n t f) = fresh (job_args self i) f"
  by (rule fresh_cong) (simp_all add: chunk_transcript_def [symmetric])


subsection \<open>A worker's own step keeps its invariant\<close>

lemma parent_chunk_transcript [simp]: "parent (chunk_transcript td i) = output_chunk_dir td i"
  by (simp add: parent_def chunk_transcript_def)

lemma output_chunk_dir_nonempty [simp]: "output_chunk_dir td i \<noteq> []"
  by (simp add: output_chunk_dir_def)

lemma frag_path [simp]:
  "output_chunk_dir td i @ [fragment_name i] = chunk_transcript td i"
  by (simp add: chunk_transcript_def)

lemma exists_write_progress [simp]:
  "q \<noteq> progress_path (temp_dir self) i \<Longrightarrow>
   exists_path (write_progress (job_args self i) c t s f) q = exists_path f q"
  by (simp add: exists_path_def)

lemma exists_tqdm_write_progress [simp]:
  "q \<noteq> progress_path (temp_dir self) i \<Longrightarrow>
   exists_path (tqdm_write_progress (job_args self i) c t f) q = exists_path f q"
  by (simp add: exists_path_def)

lemma inv_PLoadModel:
  "worker_inv e (job_args self i) PLoadModel f \<Longrightarrow>
   worker_inv e (job_args self i) (fst (wstep e (job_args self i) PLoadModel f))
           (snd (wstep e (job_args self i) PLoadModel f))"
  by (auto simp add: loaded_def fragment_of_def fresh_def read_text_def read_file_def exists_path_def
          split: option.splits)

lemma inv_PTranscribe:
  "worker_inv e (job_args self i) PTranscribe f \<Longrightarrow>
   worker_inv e (job_args self i) (fst (wstep e (job_args self i) PTranscribe f))
           (snd (wstep e (job_args self i) PTranscribe f))"
  by (auto simp add: Let_def ending_pc_def transcribed_def loaded_def fragment_of_def fresh_def
          read_text_def read_file_def exists_path_def
          split: option.splits sum.splits)

lemma inv_PUpdate:
  "worker_inv e (job_args self i) (PUpdate en tot n ups) f \<Longrightarrow>
   worker_inv e (job_args self i) (fst (wstep e (job_args self i) (PUpdate en tot n ups) f))
           (snd (wstep e (job_args self i) (PUpdate en tot n ups) f))"
      by (cases ups) (auto simp add: Let_def ending_pc_def transcribed_def loaded_def fragment_of_def fresh_def
          read_text_def read_file_def exists_path_def
          split: option.splits sum.splits)

lemma inv_PMkdir:
  "worker_inv e (job_args self i) (PMkdir segs) f \<Longrightarrow>
   worker_inv e (job_args self i) (fst (wstep e (job_args self i) (PMkdir segs) f))
           (snd (wstep e (job_args self i) (PMkdir segs) f))"
  by (auto simp add: fresh_def mkdir_parents_def is_dir_def exists_path_def
         split: option.splits node.splits)

lemma inv_PWrite:
  "worker_inv e (job_args self i) (PWrite segs) f \<Longrightarrow>
   worker_inv e (job_args self i) (fst (wstep e (job_args self i) (PWrite segs) f))
           (snd (wstep e (job_args self i) (PWrite segs) f))"
   by (auto simp add: Let_def open_w_def is_dir_def exists_path_def
        fragment_of_def transcribed_def loaded_def read_text_def read_file_def 
        split: option.splits prod.splits node.splits if_splits)

lemma inv_PComplete:
  "worker_inv e (job_args self i) PComplete f \<Longrightarrow>
   worker_inv e (job_args self i) (fst (wstep e (job_args self i) PComplete f))
           (snd (wstep e (job_args self i) PComplete f))"
    by (auto simp add: read_text_def read_file_def exists_path_def split: option.splits fdata.splits node.splits)

subsection \<open>The pool keeps every worker's invariant\<close>

lemma worker_inv_step:
  assumes "worker_inv e (job_args self i) pc f"
  shows "worker_inv e (job_args self i) (fst (wstep e (job_args self i) pc f))
           (snd (wstep e (job_args self i) pc f))"
proof (cases pc)
  case PGate
  then show ?thesis using assms by (simp split: poll.splits)
next
  case PLoadModel
  then show ?thesis using assms inv_PLoadModel by blast
next
  case PTranscribe
  then show ?thesis using assms inv_PTranscribe by blast
next
  case (PUpdate en tot n ups)
  then show ?thesis using assms inv_PUpdate by blast
next
  case (PMkdir segs)
  then show ?thesis using assms inv_PMkdir by blast
next
  case (PWrite segs)
  then show ?thesis using assms inv_PWrite by blast
next
  case PComplete
  then show ?thesis using assms inv_PComplete by blast
qed (use assms in simp_all)

lemma worker_inv_other:
  assumes "worker_inv e (job_args self i) pc f" and "i \<noteq> j"
  shows "worker_inv e (job_args self i) pc (snd (wstep e (job_args self j) pc' f))"
proof -
  have "snd (wstep e (job_args self j) pc' f) (output_chunk_dir (temp_dir self) i)
          = f (output_chunk_dir (temp_dir self) i)"
    using assms(2) by (intro wstep_frame) simp_all
  moreover have "snd (wstep e (job_args self j) pc' f) (chunk_transcript (temp_dir self) i)
          = f (chunk_transcript (temp_dir self) i)"
    using assms(2) by (intro wstep_frame) simp_all
  ultimately show ?thesis
    using assms(1) worker_inv_frame [of "snd (wstep e (job_args self j) pc' f)" "job_args self i" f e pc]
    by simp
qed

lemma pool_step_inv:
  assumes "pool_inv e self n st"
  shows "pool_inv e self n (pool_step e self n j st)"
proof (cases "1 \<le> j \<and> j \<le> n")
  case False
  then have "pool_step e self n j st = st" by (auto simp add: pool_step_def)
  then show ?thesis using assms by simp
next
  case True
  show ?thesis
    unfolding pool_inv_def
  proof (intro allI impI)
    fix i assume i: "1 \<le> i \<and> i \<le> n"
    with assms have inv: "worker_inv e (job_args self i) (pool_pc st i) (pool_fs st)"
      by (simp add: pool_inv_def)
    show "worker_inv e (job_args self i) (pool_pc (pool_step e self n j st) i)
            (pool_fs (pool_step e self n j st))"
    proof (cases "i = j")
      case True
      with inv \<open>1 \<le> j \<and> j \<le> n\<close> show ?thesis
        using worker_inv_step [of e self j "pool_pc st j" "pool_fs st"]
        by (simp add: pool_step_def split_def Let_def)
    next
      case False
      with inv \<open>1 \<le> j \<and> j \<le> n\<close> show ?thesis
        using worker_inv_other [of e self i "pool_pc st i" "pool_fs st" j "pool_pc st j"]
        by (simp add: pool_step_def split_def Let_def)
    qed
  qed
qed

lemma pool_run_inv:
  "pool_inv e self n st \<Longrightarrow> pool_inv e self n (snd (pool_run e self n sched st))"
proof (induction sched arbitrary: st)
  case Nil
  then show ?case by simp
next
  case (Cons t rest)
  then show ?case
    by (cases t) (simp_all add: pool_step_inv)
qed

lemma pool_run_completed:
  "fst (pool_run e self n sched st) = Completed \<Longrightarrow> all_returned n (snd (pool_run e self n sched st))"
proof (induction sched arbitrary: st)
  case Nil
  then show ?case by (simp split: if_splits)
next
  case (Cons t rest)
  then show ?case
    by (cases t) (auto split: if_splits)
qed

lemma combine_loop_spec:
  assumes "\<forall>i\<in>set is. (exists_path g (chunk_transcript td i) \<longleftrightarrow> F i \<noteq> None)
              \<and> read_text_mode g (chunk_transcript td i) = F i"
  shows "combine_loop td is g out lg =
           (out @ concat (List.map_filter F is),
            lg @ map EvTranscriptNotFound (filter (\<lambda>i. F i = None) is), None)"
  using assms
proof (induction "is" arbitrary: out lg)
  case Nil
  then show ?case by (simp add: List.map_filter_simps)
next
  case (Cons i rest)
  then show ?case
    by (cases "F i") (auto simp add: List.map_filter_simps)
qed

subsection \<open>Splitting\<close>

lemma create_chunk_frame:
  "q \<noteq> chunk_file td i \<Longrightarrow> snd (create_chunk e td v n cd i f) q = f q"
  by (auto simp add: create_chunk_def create_chunk_cmd_def Let_def
        split: ffmpeg_result.splits option.splits dest: open_w_frame)

lemma create_chunks_frame:
  "\<forall>i\<in>set is. q \<noteq> chunk_file td i \<Longrightarrow> snd (create_chunks e td v n cd is f) q = f q"
proof (induction "is" arbitrary: f)
  case Nil
  then show ?case by simp
next
  case (Cons i rest)
  then show ?case
    by (simp add: split_def Let_def create_chunk_frame)
qed

lemma create_chunk_success:
  "fst (snd (fst (create_chunk e td v n cd i f))) = (\<not> invocation_raises e td v n cd i)"
  by (simp add: create_chunk_def invocation_raises_def Let_def split: ffmpeg_result.splits)

lemma create_chunks_find:
  "(find (\<lambda>(k, success, err). \<not> success) (fst (create_chunks e td v n cd is f)) = None)
     \<longleftrightarrow> (\<forall>i\<in>set is. \<not> invocation_raises e td v n cd i)"
proof (induction "is" arbitrary: f)
  case Nil
  then show ?case by simp
next
  case (Cons i rest)
  show ?case
    using Cons.IH [of "snd (create_chunk e td v n cd i f)"]
      create_chunk_success [of e td v n cd i f]
    by (auto simp add: split_def Let_def)
qed

lemma verify_chunks_ok:
  "fst (verify_chunks e td is f) \<longleftrightarrow> (\<forall>i\<in>set is. exists_path f (chunk_file td i))"
  by (induction "is") (auto simp add: split_def Let_def)

lemma verify_chunks_no_submit: "EvSubmit k \<notin> set (snd (verify_chunks e td is f))"
  by (induction "is") (auto simp add: split_def Let_def split: option.splits)

subsection \<open>Split failure\<close>

lemma split_no_duration:
  "get_video_duration e f v = None \<Longrightarrow>
   split_video_into_chunks e self v n f = (Ret False, [EvNoDuration], f)"
  by (simp add: split_video_into_chunks_def)

lemma split_unfold:
  assumes "get_video_duration e f v = Some T" and "n \<ge> 1"
  shows "split_video_into_chunks e self v n f =
     (let cc = create_chunks e (temp_dir self) v n (chunk_duration_of T n) [1..n]
                 (mkdir_parents (temp_dir self) (remove_temp self f))
      in case find (\<lambda>(k, success, err). \<not> success) (fst cc) of
           Some (k, success, err) \<Rightarrow> (Ret False, [EvChunkError k err], snd cc)
         | None \<Rightarrow> (Ret (fst (verify_chunks e (temp_dir self) [1..n] (snd cc))),
                     snd (verify_chunks e (temp_dir self) [1..n] (snd cc)), snd cc))"
  using assms
  by (simp add: split_video_into_chunks_def Let_def split_def split: option.splits)

lemma split_fs_progress:
  "exists_path (snd (snd (split_video_into_chunks e self v n f))) (progress_path (temp_dir self) i)
   \<Longrightarrow> exists_path f (progress_path (temp_dir self) i)"
proof -
  let ?q = "progress_path (temp_dir self) i"
  have np: "\<not> prefix ?q (temp_dir self)" by (simp add: progress_path_def)
  have a: "mkdir_parents (temp_dir self) g ?q = g ?q" for g
    using np by (rule mkdir_parents_frame)
  have b: "snd (create_chunks e (temp_dir self) v n cd is g) ?q = g ?q" for cd "is" g
    by (rule create_chunks_frame) simp
  have c: "exists_path (remove_temp self f) ?q \<Longrightarrow> exists_path f ?q"
    by (simp add: remove_temp_def rmtree_def exists_path_def split: if_splits)
  assume "exists_path (snd (snd (split_video_into_chunks e self v n f))) ?q"
  then show ?thesis using c
    by (auto simp add: split_video_into_chunks_def Let_def split_def exists_path_def a b
          split: option.splits if_splits)
qed

lemma split_no_submit:
  "EvSubmit k \<notin> set (fst (snd (split_video_into_chunks e self v n f)))"
  by (auto simp add: split_video_into_chunks_def Let_def split_def verify_chunks_no_submit
        split: option.splits if_splits)

lemma process_video_split_failed:
  assumes "fst (split_video_into_chunks e self v (num_chunk_threads self) f) = Ret False"
  shows "process_video e self v sched f =
     \<lparr> job_outcome = Returned False,
       job_fs = snd (snd (split_video_into_chunks e self v (num_chunk_threads self) f)),
       job_log = fst (snd (split_video_into_chunks e self v (num_chunk_threads self) f)) @ [EvSplitFailed] \<rparr>"
  using assms
  by (cases "split_video_into_chunks e self v (num_chunk_threads self) f")
     (simp add: process_video_def Let_def)

text \<open>
  C3, as the code has it. With at least one chunk, the split phase reports failure exactly
  when the duration probe of the source fails, or a chunk's ffmpeg invocation raises, or a
  chunk file is missing after the parallel phase. A chunk file that exists passes the
  verification whatever its probed duration: a chunk without a duration is printed as
  "duration unknown" and the split succeeds. When the split phase reports failure,
  \<^verbatim>\<open>process_video\<close> returns False, submits no transcription worker and leaves no progress
  record that was not there before.
\<close>

theorem split_failure:
  assumes "num_chunk_threads self \<ge> 1"
  shows
   "(fst (split_video_into_chunks e self v (num_chunk_threads self) f) = Ret False \<longleftrightarrow>
       (case get_video_duration e f v of
          None \<Rightarrow> True
        | Some T \<Rightarrow>
            (\<exists>i. 1 \<le> i \<and> i \<le> num_chunk_threads self
                 \<and> invocation_raises e (temp_dir self) v (num_chunk_threads self)
                      (chunk_duration_of T (num_chunk_threads self)) i)
          \<or> (\<exists>i. 1 \<le> i \<and> i \<le> num_chunk_threads self
                 \<and> \<not> exists_path (snd (snd (split_video_into_chunks e self v (num_chunk_threads self) f)))
                        (chunk_file (temp_dir self) i))))
    \<and> (fst (split_video_into_chunks e self v (num_chunk_threads self) f) = Ret False \<longrightarrow>
         job_outcome (process_video e self v sched f) = Returned False
       \<and> (\<forall>i. EvSubmit i \<notin> set (job_log (process_video e self v sched f)))
       \<and> (\<forall>i. exists_path (job_fs (process_video e self v sched f)) (progress_path (temp_dir self) i)
               \<longrightarrow> exists_path f (progress_path (temp_dir self) i)))"
proof (intro conjI impI)
  let ?n = "num_chunk_threads self"
  show "fst (split_video_into_chunks e self v ?n f) = Ret False \<longleftrightarrow>
       (case get_video_duration e f v of
          None \<Rightarrow> True
        | Some T \<Rightarrow>
            (\<exists>i. 1 \<le> i \<and> i \<le> ?n \<and> invocation_raises e (temp_dir self) v ?n (chunk_duration_of T ?n) i)
          \<or> (\<exists>i. 1 \<le> i \<and> i \<le> ?n
                 \<and> \<not> exists_path (snd (snd (split_video_into_chunks e self v ?n f)))
                        (chunk_file (temp_dir self) i)))"
  proof (cases "get_video_duration e f v")
    case None
    then show ?thesis by (simp add: split_no_duration)
  next
    case (Some T)
    let ?cc = "create_chunks e (temp_dir self) v ?n (chunk_duration_of T ?n) [1..?n]
                 (mkdir_parents (temp_dir self) (remove_temp self f))"
    note unf = split_unfold [OF Some assms]
    show ?thesis
    proof (cases "find (\<lambda>(k, success, err). \<not> success) (fst ?cc)")
      case None
      then have "\<forall>i\<in>set [1..?n]. \<not> invocation_raises e (temp_dir self) v ?n (chunk_duration_of T ?n) i"
        using create_chunks_find by blast
      then show ?thesis using None Some
        by (auto simp add: unf Let_def verify_chunks_ok)
    next
      case (Some r)
      then have "find (\<lambda>(k, success, err). \<not> success) (fst ?cc) \<noteq> None" by simp
      then have "\<not> (\<forall>i\<in>set [1..?n]. \<not> invocation_raises e (temp_dir self) v ?n (chunk_duration_of T ?n) i)"
        by (simp only: create_chunks_find) simp
      then have "\<exists>i. 1 \<le> i \<and> i \<le> ?n \<and> invocation_raises e (temp_dir self) v ?n (chunk_duration_of T ?n) i"
        by auto
      then show ?thesis using Some \<open>get_video_duration e f v = Some T\<close>
        by (cases r) (auto simp add: unf Let_def)
    qed
  qed
next
  assume fail: "fst (split_video_into_chunks e self v (num_chunk_threads self) f) = Ret False"
  note pv = process_video_split_failed [OF fail, of sched]
  show "job_outcome (process_video e self v sched f) = Returned False"
    by (simp add: pv)
  show "\<forall>i. EvSubmit i \<notin> set (job_log (process_video e self v sched f))"
    by (simp add: pv split_no_submit)
  show "\<forall>i. exists_path (job_fs (process_video e self v sched f)) (progress_path (temp_dir self) i)
               \<longrightarrow> exists_path f (progress_path (temp_dir self) i)"
    using split_fs_progress by (simp add: pv)
qed

text \<open>
  The claim as the specification words it fails on a chunk file that is empty: ffprobe gives
  no duration for it, yet the split phase succeeds, worker 1 is submitted and its first step
  creates a progress record.
\<close>

theorem split_empty_chunk_counterexample:
  "get_video_duration env_empty_chunk
     (snd (snd (split_video_into_chunks env_empty_chunk (sample_self 1) sample_video 1 sample_fs)))
     (chunk_file (temp_dir (sample_self 1)) 1) = None
   \<and> fst (split_video_into_chunks env_empty_chunk (sample_self 1) sample_video 1 sample_fs) = Ret True
   \<and> job_log (process_video env_empty_chunk (sample_self 1) sample_video [Step 1] sample_fs)
       = [EvChunkDurationUnknown 1, EvSubmit 1]
   \<and> exists_path (job_fs (process_video env_empty_chunk (sample_self 1) sample_video [Step 1] sample_fs))
        (progress_path (temp_dir (sample_self 1)) 1)"
  by code_simp

theorem split_failure_witness:
  "1 \<le> num_chunk_threads (sample_self 2)
   \<and> fst (split_video_into_chunks env_ffmpeg_raises (sample_self 2) sample_video
            (num_chunk_threads (sample_self 2)) sample_fs) = Ret False
   \<and> job_outcome (process_video env_ffmpeg_raises (sample_self 2) sample_video (round_robin 3 2) sample_fs)
       = Returned False
   \<and> (\<forall>i. EvSubmit i \<notin> set (job_log (process_video env_ffmpeg_raises (sample_self 2) sample_video
                                        (round_robin 3 2) sample_fs)))"
proof -
  have h1: "1 \<le> num_chunk_threads (sample_self 2)" by code_simp
  have h2: "fst (split_video_into_chunks env_ffmpeg_raises (sample_self 2) sample_video
            (num_chunk_threads (sample_self 2)) sample_fs) = Ret False" by code_simp
  from split_failure [OF h1, of env_ffmpeg_raises sample_video sample_fs "round_robin 3 2"] h1 h2
  show ?thesis by blast
qed

subsection \<open>The job outside and inside its temporary directory\<close>

lemma prefix_snoc_cases: "prefix q (td @ [x]) \<Longrightarrow> prefix q td \<or> q = td @ [x]"
  by (auto simp add: prefix_snoc)

lemma unrelated_worker_paths:
  assumes "\<not> prefix td q" and "\<not> prefix q td"
  shows "q \<noteq> progress_path td i" and "\<not> prefix q (output_chunk_dir td i)"
    and "q \<noteq> chunk_transcript td i" and "q \<noteq> chunk_file td i"
  using assms
  by (auto simp add: progress_path_def output_chunk_dir_def chunk_transcript_def chunk_file_def
        prefix_snoc)

lemma pool_step_frame:
  assumes "\<not> prefix (temp_dir self) q" and "\<not> prefix q (temp_dir self)"
  shows "pool_fs (pool_step e self n j st) q = pool_fs st q"
proof (cases "1 \<le> j \<and> j \<le> n")
  case True
  have "snd (wstep e (job_args self j) (pool_pc st j) (pool_fs st)) q = pool_fs st q"
    using unrelated_worker_paths [OF assms] by (intro wstep_frame)
  with True show ?thesis by (simp add: pool_step_def split_def Let_def)
next
  case False
  then have "pool_step e self n j st = st" by (auto simp add: pool_step_def)
  then show ?thesis by simp
qed

lemma pool_run_frame:
  assumes "\<not> prefix (temp_dir self) q" and "\<not> prefix q (temp_dir self)"
  shows "pool_fs (snd (pool_run e self n sched st)) q = pool_fs st q"
proof (induction sched arbitrary: st)
  case Nil
  then show ?case by simp
next
  case (Cons t rest)
  then show ?case
    by (cases t) (simp_all add: pool_step_frame [OF assms])
qed

lemma remove_temp_frame: "\<not> prefix (temp_dir self) q \<Longrightarrow> remove_temp self f q = f q"
  by (simp add: remove_temp_def rmtree_def)

lemma remove_temp_under:
  assumes "wf_fs f" and "temp_dir self \<noteq> []" and "prefix (temp_dir self) q"
  shows "\<not> exists_path (remove_temp self f) q"
proof (cases "exists_path f (temp_dir self)")
  case True
  with assms(3) show ?thesis by (simp add: remove_temp_def rmtree_def exists_path_def)
next
  case False
  have "\<not> exists_path f q"
  proof
    assume "exists_path f q"
    with assms have "exists_path f (temp_dir self)" unfolding wf_fs_def by blast
    with False show False by simp
  qed
  with False show ?thesis by (simp add: remove_temp_def)
qed

lemma split_frame:
  assumes "\<not> prefix (temp_dir self) q" and "\<not> prefix q (temp_dir self)"
  shows "snd (snd (split_video_into_chunks e self v n f)) q = f q"
proof -
  have a: "mkdir_parents (temp_dir self) g q = g q" for g
    using assms(2) by (rule mkdir_parents_frame)
  have b: "snd (create_chunks e (temp_dir self) v n cd is g) q = g q" for cd "is" g
    using unrelated_worker_paths(4) [OF assms] by (intro create_chunks_frame) simp
  show ?thesis
    using remove_temp_frame [OF assms(1), of f]
    by (auto simp add: split_video_into_chunks_def Let_def split_def a b
          split: option.splits if_splits)
qed

lemma split_True_unfold:
  assumes "fst (split_video_into_chunks e self v n f) = Ret True"
  obtains T where "get_video_duration e f v = Some T" and "1 \<le> n"
proof -
  from assms have "get_video_duration e f v \<noteq> None"
    by (cases "get_video_duration e f v") (simp_all add: split_video_into_chunks_def)
  then obtain T where T: "get_video_duration e f v = Some T" by blast
  from assms T have "1 \<le> n"
    by (cases "n = 0"; cases "n < 0") (auto simp add: split_video_into_chunks_def Let_def)
  with T that show ?thesis by blast
qed

lemma split_fresh:
  assumes "wf_fs f" and "temp_dir self \<noteq> []"
    and "fst (split_video_into_chunks e self v n f) = Ret True"
    and "prefix (temp_dir self) q" and "q \<noteq> temp_dir self"
    and "\<forall>i. q \<noteq> chunk_file (temp_dir self) i"
  shows "\<not> exists_path (snd (snd (split_video_into_chunks e self v n f))) q"
proof -
  from assms(3) obtain T where T: "get_video_duration e f v = Some T" and n: "1 \<le> n"
    by (rule split_True_unfold)
  let ?f2 = "mkdir_parents (temp_dir self) (remove_temp self f)"
  let ?cc = "create_chunks e (temp_dir self) v n (chunk_duration_of T n) [1..n] ?f2"
  have "snd (snd (split_video_into_chunks e self v n f)) = snd ?cc"
    by (simp add: split_unfold [OF T n] Let_def split: option.splits)
  moreover have "snd ?cc q = ?f2 q"
    using assms(6) by (intro create_chunks_frame) simp
  moreover have "\<not> prefix q (temp_dir self)"
    using assms(4,5) by (meson prefix_order.antisym)
  then have "?f2 q = remove_temp self f q" by (rule mkdir_parents_frame)
  moreover have "\<not> exists_path (remove_temp self f) q"
    using assms(1,2,4) by (rule remove_temp_under)
  ultimately show ?thesis by (simp add: exists_path_def)
qed

lemma pool_init_inv:
  assumes "wf_fs f" and "temp_dir self \<noteq> []"
    and "fst (split_video_into_chunks e self v n f) = Ret True"
  shows "pool_inv e self n (pool_init (snd (snd (split_video_into_chunks e self v n f))))"
proof -
  let ?f3 = "snd (snd (split_video_into_chunks e self v n f))"
  have "\<not> exists_path ?f3 (output_chunk_dir (temp_dir self) i)" for i
    using assms by (rule split_fresh) (simp_all add: output_chunk_dir_def chunk_file_def)
  moreover have "\<not> exists_path ?f3 (chunk_transcript (temp_dir self) i)" for i
    using assms by (rule split_fresh) (simp_all add: chunk_transcript_def output_chunk_dir_def chunk_file_def)
  ultimately show ?thesis
    by (simp add: pool_inv_def pool_init_def fresh_def)
qed

lemma pool_done_fragments:
  assumes "pool_inv e self n st" and "all_returned n st" and "i \<in> set [1..n]"
  shows "(exists_path (pool_fs st) (chunk_transcript (temp_dir self) i)
            \<longleftrightarrow> fragment_of e (job_args self i) \<noteq> None)
       \<and> read_text (pool_fs st) (chunk_transcript (temp_dir self) i) = fragment_of e (job_args self i)"
proof -
  from assms(2,3) have "is_done (pool_pc st i)"
    by (simp add: all_returned_def list_all_iff)
  then obtain r where r: "pool_pc st i = PDone r"
    by (cases "pool_pc st i") (simp_all add: is_done_def)
  from assms(1,3) have "worker_inv e (job_args self i) (pool_pc st i) (pool_fs st)"
    by (simp add: pool_inv_def)
  with r show ?thesis by simp
qed

lemma pool_combine:
  assumes "pool_inv e self n st" and "all_returned n st"
  shows "combine_loop (temp_dir self) [1..n] (pool_fs st) [] [] =
           (concat (ordered_fragments e self n),
            map EvTranscriptNotFound
              (filter (\<lambda>i. fragment_of e (job_args self i) = None) [1..n]), None)"
  using combine_loop_spec [of "[1..n]" "pool_fs st" "temp_dir self"
          "\<lambda>i. map_option universal_newlines (fragment_of e (job_args self i))" "[]" "[]"]
    pool_done_fragments [OF assms]
  by (simp add: ordered_fragments_def read_text_mode_def)

subsection \<open>Reaching the aggregation\<close>

lemma transcript_warnings_append [simp]:
  "transcript_warnings (xs @ ys) = transcript_warnings xs @ transcript_warnings ys"
  by (simp add: transcript_warnings_def List.map_filter_def)

lemma transcript_warnings_map [simp]:
  "transcript_warnings (map EvTranscriptNotFound is) = is"
  by (induction "is") (simp_all add: transcript_warnings_def List.map_filter_simps)

lemma transcript_warnings_submit [simp]:
  "transcript_warnings (map EvSubmit is) = []"
  by (induction "is") (simp_all add: transcript_warnings_def List.map_filter_simps)

lemma transcript_warnings_failed [simp]:
  "transcript_warnings (map (\<lambda>(n, s, err). EvChunkFailed n err) rs) = []"
  by (induction rs) (auto simp add: transcript_warnings_def List.map_filter_simps)

lemma transcript_warnings_verify [simp]:
  "transcript_warnings (snd (verify_chunks e td is f)) = []"
  by (induction "is")
     (auto simp add: transcript_warnings_def List.map_filter_simps split_def Let_def
        split: option.splits)

lemma transcript_warnings_split [simp]:
  "transcript_warnings (fst (snd (split_video_into_chunks e self v n f))) = []"
  by (auto simp add: split_video_into_chunks_def Let_def split_def
        transcript_warnings_def [of "[_]"] transcript_warnings_def [of "[]"] List.map_filter_simps
        split: option.splits if_splits)

lemma reaches_aggregationE:
  assumes "reaches_aggregation e self v sched f"
  obtains lg f1 st where
    "split_video_into_chunks e self v (num_chunk_threads self) f = (Ret True, lg, f1)"
    and "pool_run e self (num_chunk_threads self) sched (pool_init f1) = (Completed, st)"
proof -
  obtain r lg f1 where s: "split_video_into_chunks e self v (num_chunk_threads self) f = (r, lg, f1)"
    by (cases "split_video_into_chunks e self v (num_chunk_threads self) f") blast
  with assms have r: "r = Ret True"
    by (auto simp add: reaches_aggregation_def split: res.splits bool.splits)
  obtain pe st where p: "pool_run e self (num_chunk_threads self) sched (pool_init f1) = (pe, st)"
    by (cases "pool_run e self (num_chunk_threads self) sched (pool_init f1)") blast
  with assms s r have "pe = Completed"
    by (auto simp add: reaches_aggregation_def split: pool_end.splits)
  with s r p that show ?thesis by blast
qed

lemma returned_True_reaches:
  assumes "job_outcome (process_video e self v sched f) = Returned True"
  shows "reaches_aggregation e self v sched f"
proof -
  obtain r lg f1 where s: "split_video_into_chunks e self v (num_chunk_threads self) f = (r, lg, f1)"
    by (cases "split_video_into_chunks e self v (num_chunk_threads self) f") blast
  obtain pe st where p: "pool_run e self (num_chunk_threads self) sched (pool_init f1) = (pe, st)"
    by (cases "pool_run e self (num_chunk_threads self) sched (pool_init f1)") blast
  from assms s p show ?thesis
    by (auto simp add: process_video_def reaches_aggregation_def Let_def
          split: res.splits bool.splits pool_end.splits)
qed

lemma process_video_aggregates:
  assumes wf: "wf_fs f" and td: "temp_dir self \<noteq> []"
    and reach: "reaches_aggregation e self v sched f"
  obtains g lg where
    "\<forall>q. \<not> prefix (temp_dir self) q \<and> \<not> prefix q (temp_dir self) \<longrightarrow> g q = f q"
    and "transcript_warnings lg = []"
    and "process_video e self v sched f =
          (case open_w g (final_transcript self v)
                  (Text (concat (ordered_fragments e self (num_chunk_threads self)))) of
             None \<Rightarrow> \<lparr> job_outcome = Raised open_error, job_fs = g, job_log = lg \<rparr>
           | Some f2 \<Rightarrow>
               \<lparr> job_outcome = Returned True,
                 job_fs = (if cleanup self then remove_temp self f2 else f2),
                 job_log = lg @ map EvTranscriptNotFound
                   (filter (\<lambda>i. fragment_of e (job_args self i) = None)
                      [1..num_chunk_threads self]) \<rparr>)"
proof -
  let ?n = "num_chunk_threads self"
  from reach obtain sl f1 st where
    s: "split_video_into_chunks e self v ?n f = (Ret True, sl, f1)"
    and p: "pool_run e self ?n sched (pool_init f1) = (Completed, st)"
    by (rule reaches_aggregationE)
  from s have s1: "fst (split_video_into_chunks e self v ?n f) = Ret True"
    and f1: "f1 = snd (snd (split_video_into_chunks e self v ?n f))"
    and sl: "sl = fst (snd (split_video_into_chunks e self v ?n f))" by simp_all
  have inv0: "pool_inv e self ?n (pool_init f1)"
    unfolding f1 using wf td s1 by (rule pool_init_inv)
  have inv: "pool_inv e self ?n st"
    using pool_run_inv [OF inv0, of sched] p by simp
  have fin: "all_returned ?n st"
    using pool_run_completed [of e self ?n sched "pool_init f1"] p by simp
  note comb = pool_combine [OF inv fin]
  let ?lg = "sl @ map EvSubmit [1..?n]
             @ map (\<lambda>(n, s, err). EvChunkFailed n err)
                 (filter (\<lambda>(n, s, err). \<not> s) (pool_results st))"
  have frame: "pool_fs st q = f q" if "\<not> prefix (temp_dir self) q" "\<not> prefix q (temp_dir self)" for q
  proof -
    have "pool_fs st q = pool_fs (pool_init f1) q"
      using pool_run_frame [OF that, of e ?n sched "pool_init f1"] p by simp
    also have "\<dots> = f q"
      using split_frame [OF that, of e v ?n f] by (simp add: pool_init_def f1)
    finally show ?thesis .
  qed
  have w: "transcript_warnings ?lg = []"
    by (simp add: sl)
  have pv: "process_video e self v sched f =
          (case open_w (pool_fs st) (final_transcript self v)
                  (Text (concat (ordered_fragments e self ?n))) of
             None \<Rightarrow> \<lparr> job_outcome = Raised open_error, job_fs = pool_fs st, job_log = ?lg \<rparr>
           | Some f2 \<Rightarrow>
               \<lparr> job_outcome = Returned True,
                 job_fs = (if cleanup self then remove_temp self f2 else f2),
                 job_log = ?lg @ map EvTranscriptNotFound
                   (filter (\<lambda>i. fragment_of e (job_args self i) = None) [1..?n]) \<rparr>)"
    by (simp add: process_video_def Let_def s p comb split: option.splits)
  from frame have "\<forall>q. \<not> prefix (temp_dir self) q \<and> \<not> prefix q (temp_dir self) \<longrightarrow> pool_fs st q = f q"
    by blast
  from that [OF this w pv] show ?thesis .
qed

subsection \<open>The final transcript\<close>

lemma wf_sample_fs: "wf_fs sample_fs"
  unfolding wf_fs_def
proof (intro allI impI)
  fix p q assume a: "exists_path sample_fs p \<and> prefix q p \<and> q \<noteq> []"
  then have "p \<in> {[''app''], [''app'', ''input''], [''app'', ''output''], sample_video}"
    by (auto simp add: sample_fs_def exists_path_def split: if_splits)
  with a have "q \<in> {[''app''], [''app'', ''input''], [''app'', ''output''], sample_video}"
    by (auto simp add: sample_video_def prefix_Cons)
  then show "exists_path sample_fs q"
    by (auto simp add: sample_fs_def exists_path_def sample_video_def)
qed

lemma wf_sample_fs_old: "wf_fs sample_fs_old"
  unfolding wf_fs_def
proof (intro allI impI)
  fix p q assume a: "exists_path sample_fs_old p \<and> prefix q p \<and> q \<noteq> []"
  then have "p = [''app''] \<or> p = [''app'', ''input''] \<or> p = [''app'', ''output'']
      \<or> p = [''app'', ''input'', ''talk.mp4''] \<or> p = [''app'', ''output'', ''talk.txt'']"
    by (simp add: sample_fs_old_def sample_fs_def exists_path_def sample_video_def split: if_splits)
  with a have "q = [''app''] \<or> q = [''app'', ''input''] \<or> q = [''app'', ''output'']
      \<or> q = [''app'', ''input'', ''talk.mp4''] \<or> q = [''app'', ''output'', ''talk.txt'']"
    by (auto simp add: prefix_Cons)
  then show "exists_path sample_fs_old q"
    by (auto simp add: sample_fs_old_def sample_fs_def exists_path_def sample_video_def)
qed

lemma init_facts:
  assumes "self = VideoTranscriber_init sd mt ms lc"
  shows "temp_dir self \<noteq> []" and "cleanup self" and "num_chunk_threads self = mt"
    and "max_threads self = mt"
    and "\<not> prefix (temp_dir self) (final_transcript self v)"
    and "\<not> prefix (final_transcript self v) (temp_dir self)"
    and "\<not> prefix (temp_dir self) (output_dir self)"
    and "\<not> prefix (output_dir self) (temp_dir self)"
    and "parent (final_transcript self v) = output_dir self"
  by (simp_all add: assms VideoTranscriber_init_def final_transcript_def parent_def prefix_def
        butlast_append)

lemma open_w_result: "open_w g p d = Some f2 \<Longrightarrow> f2 = g(p \<mapsto> File d)"
  by (auto simp add: open_w_def split: if_splits)

lemma job_final_text:
  assumes self: "self = VideoTranscriber_init sd mt ms lc"
    and "wf_fs f"
    and "reaches_aggregation e self v sched f"
    and "job_outcome (process_video e self v sched f) = Returned True"
  shows "job_fs (process_video e self v sched f) (final_transcript self v)
           = Some (File (Text (concat (ordered_fragments e self mt))))"
    and "transcript_warnings (job_log (process_video e self v sched f))
           = filter (\<lambda>i. fragment_of e (job_args self i) = None) [1..mt]"
proof -
  note facts = init_facts [OF self]
  obtain g lg where
    frame: "\<forall>q. \<not> prefix (temp_dir self) q \<and> \<not> prefix q (temp_dir self) \<longrightarrow> g q = f q"
    and w: "transcript_warnings lg = []"
    and pv: "process_video e self v sched f =
          (case open_w g (final_transcript self v)
                  (Text (concat (ordered_fragments e self (num_chunk_threads self)))) of
             None \<Rightarrow> \<lparr> job_outcome = Raised open_error, job_fs = g, job_log = lg \<rparr>
           | Some f2 \<Rightarrow>
               \<lparr> job_outcome = Returned True,
                 job_fs = (if cleanup self then remove_temp self f2 else f2),
                 job_log = lg @ map EvTranscriptNotFound
                   (filter (\<lambda>i. fragment_of e (job_args self i) = None)
                      [1..num_chunk_threads self]) \<rparr>)"
    by (rule process_video_aggregates [OF assms(2) facts(1) assms(3)])
  from assms(4) pv obtain f2 where
    o: "open_w g (final_transcript self v)
          (Text (concat (ordered_fragments e self (num_chunk_threads self)))) = Some f2"
    by (cases "open_w g (final_transcript self v)
                  (Text (concat (ordered_fragments e self (num_chunk_threads self))))")
       simp_all
  have fin: "remove_temp self f2 (final_transcript self v) = f2 (final_transcript self v)"
    using facts(5) by (rule remove_temp_frame)
  have "job_fs (process_video e self v sched f) (final_transcript self v)
          = f2 (final_transcript self v)"
    using fin facts(2) by (simp add: pv o)
  also have "\<dots> = Some (File (Text (concat (ordered_fragments e self (num_chunk_threads self)))))"
    using open_w_result [OF o] by simp
  finally show "job_fs (process_video e self v sched f) (final_transcript self v)
           = Some (File (Text (concat (ordered_fragments e self mt))))"
    by (simp add: facts(3))
  show "transcript_warnings (job_log (process_video e self v sched f))
           = filter (\<lambda>i. fragment_of e (job_args self i) = None) [1..mt]"
    using w o by (simp add: pv facts(3))
qed

lemma aggregation_fragments:
  assumes wf: "wf_fs f" and td: "temp_dir self \<noteq> []"
    and reach: "reaches_aggregation e self v sched f"
    and i: "i \<in> set [1..num_chunk_threads self]"
  shows "(exists_path (aggregation_fs e self v sched f) (chunk_transcript (temp_dir self) i)
            \<longleftrightarrow> fragment_of e (job_args self i) \<noteq> None)
       \<and> read_text (aggregation_fs e self v sched f) (chunk_transcript (temp_dir self) i)
            = fragment_of e (job_args self i)"
proof -
  let ?n = "num_chunk_threads self"
  from reach obtain sl f1 st where
    s: "split_video_into_chunks e self v ?n f = (Ret True, sl, f1)"
    and p: "pool_run e self ?n sched (pool_init f1) = (Completed, st)"
    by (rule reaches_aggregationE)
  from s have s1: "fst (split_video_into_chunks e self v ?n f) = Ret True"
    and f1: "f1 = snd (snd (split_video_into_chunks e self v ?n f))" by simp_all
  have inv0: "pool_inv e self ?n (pool_init f1)"
    unfolding f1 using wf td s1 by (rule pool_init_inv)
  have inv: "pool_inv e self ?n st"
    using pool_run_inv [OF inv0, of sched] p by simp
  have fin: "all_returned ?n st"
    using pool_run_completed [of e self ?n sched "pool_init f1"] p by simp
  have "aggregation_fs e self v sched f = pool_fs st"
    by (simp add: aggregation_fs_def s p)
  with pool_done_fragments [OF inv fin i] show ?thesis by simp
qed

lemma map_filter_cong_set:
  "(\<And>x. x \<in> set xs \<Longrightarrow> F x = G x) \<Longrightarrow> List.map_filter F xs = List.map_filter G xs"
  by (induction xs) (auto simp add: List.map_filter_simps split: option.splits)

lemma aggregation_reads:
  assumes "self = VideoTranscriber_init sd mt ms lc" and "wf_fs f"
    and "reaches_aggregation e self v sched f"
  shows "List.map_filter (\<lambda>i. read_text_mode (aggregation_fs e self v sched f)
                                 (chunk_transcript (temp_dir self) i)) [1..mt]
           = ordered_fragments e self mt"
    and "filter (\<lambda>i. \<not> exists_path (aggregation_fs e self v sched f)
                          (chunk_transcript (temp_dir self) i)) [1..mt]
           = filter (\<lambda>i. fragment_of e (job_args self i) = None) [1..mt]"
proof -
  note facts = init_facts [OF assms(1)]
  have fr: "(exists_path (aggregation_fs e self v sched f) (chunk_transcript (temp_dir self) i)
            \<longleftrightarrow> fragment_of e (job_args self i) \<noteq> None)
       \<and> read_text (aggregation_fs e self v sched f) (chunk_transcript (temp_dir self) i)
            = fragment_of e (job_args self i)" if "i \<in> set [1..mt]" for i
    using aggregation_fragments [OF assms(2) facts(1) assms(3), of i] that by (simp add: facts(3))
  show "List.map_filter (\<lambda>i. read_text_mode (aggregation_fs e self v sched f)
                                 (chunk_transcript (temp_dir self) i)) [1..mt]
           = ordered_fragments e self mt"
    unfolding ordered_fragments_def
    by (rule map_filter_cong_set) (simp add: read_text_mode_def fr)
  show "filter (\<lambda>i. \<not> exists_path (aggregation_fs e self v sched f)
                          (chunk_transcript (temp_dir self) i)) [1..mt]
           = filter (\<lambda>i. fragment_of e (job_args self i) = None) [1..mt]"
    by (rule filter_cong) (simp_all add: fr)
qed

lemma job_returns_True:
  assumes "self = VideoTranscriber_init sd mt ms lc"
    and "wf_fs f"
    and "reaches_aggregation e self v sched f"
    and "is_dir f (output_dir self)"
    and "\<not> is_dir f (final_transcript self v)"
  shows "job_outcome (process_video e self v sched f) = Returned True"
proof -
  note facts = init_facts [OF assms(1)]
  obtain g lg where
    frame: "\<forall>q. \<not> prefix (temp_dir self) q \<and> \<not> prefix q (temp_dir self) \<longrightarrow> g q = f q"
    and w: "transcript_warnings lg = []"
    and pv: "process_video e self v sched f =
          (case open_w g (final_transcript self v)
                  (Text (concat (ordered_fragments e self (num_chunk_threads self)))) of
             None \<Rightarrow> \<lparr> job_outcome = Raised open_error, job_fs = g, job_log = lg \<rparr>
           | Some f2 \<Rightarrow>
               \<lparr> job_outcome = Returned True,
                 job_fs = (if cleanup self then remove_temp self f2 else f2),
                 job_log = lg @ map EvTranscriptNotFound
                   (filter (\<lambda>i. fragment_of e (job_args self i) = None)
                      [1..num_chunk_threads self]) \<rparr>)"
    by (rule process_video_aggregates [OF assms(2) facts(1) assms(3)])
  have "g (output_dir self) = f (output_dir self)"
    using frame facts(7,8) by blast
  moreover have "g (final_transcript self v) = f (final_transcript self v)"
    using frame facts(5,6) by blast
  ultimately have "is_dir g (parent (final_transcript self v)) \<and> \<not> is_dir g (final_transcript self v)"
    using assms(4,5) by (simp add: facts(9) is_dir_def)
  then have "open_w g (final_transcript self v)
                  (Text (concat (ordered_fragments e self (num_chunk_threads self)))) \<noteq> None"
    by (simp add: open_w_def)
  then show ?thesis by (auto simp add: pv)
qed

text \<open>
  C2, as the code has it. Let a job of a transcriber built by \<^verbatim>\<open>__init__\<close> reach the aggregation
  (the split succeeded and every worker has returned), on a file system in which every
  existing path has its ancestors, the output directory exists and the transcript's path is
  not a directory. Then the job returns True; the final transcript holds, in ascending chunk
  index \<open>1..N\<close>, what reading each fragment file that exists at that moment in text mode
  returns; for every chunk whose fragment file is absent, and for no other, one
  "Transcript for chunk i not found" warning is printed, in index order (no retry, no abort);
  and whatever the schedule, that is, in whatever order the workers return their results, a
  job that reaches the aggregation leaves the same final transcript and the same warnings.
\<close>

theorem aggregation_orders_fragments:
  assumes "self = VideoTranscriber_init sd mt ms lc"
    and "wf_fs f"
    and "reaches_aggregation e self v sched f"
    and "is_dir f (output_dir self)"
    and "\<not> is_dir f (final_transcript self v)"
  shows "job_outcome (process_video e self v sched f) = Returned True
       \<and> read_text (job_fs (process_video e self v sched f)) (final_transcript self v)
           = Some (concat (List.map_filter
                (\<lambda>i. read_text_mode (aggregation_fs e self v sched f)
                       (chunk_transcript (temp_dir self) i)) [1..mt]))
       \<and> transcript_warnings (job_log (process_video e self v sched f))
           = filter (\<lambda>i. \<not> exists_path (aggregation_fs e self v sched f)
                               (chunk_transcript (temp_dir self) i)) [1..mt]
       \<and> (\<forall>sched'. reaches_aggregation e self v sched' f \<longrightarrow>
             read_text (job_fs (process_video e self v sched' f)) (final_transcript self v)
               = read_text (job_fs (process_video e self v sched f)) (final_transcript self v)
             \<and> transcript_warnings (job_log (process_video e self v sched' f))
               = transcript_warnings (job_log (process_video e self v sched f)))"
proof -
  have content: "read_text (job_fs (process_video e self v s f)) (final_transcript self v)
               = Some (concat (ordered_fragments e self mt))"
    and warn: "transcript_warnings (job_log (process_video e self v s f))
           = filter (\<lambda>i. fragment_of e (job_args self i) = None) [1..mt]"
    and ret: "job_outcome (process_video e self v s f) = Returned True"
    if "reaches_aggregation e self v s f" for s
  proof -
    show r: "job_outcome (process_video e self v s f) = Returned True"
      using assms(1,2) that assms(4,5) by (rule job_returns_True)
    show "read_text (job_fs (process_video e self v s f)) (final_transcript self v)
               = Some (concat (ordered_fragments e self mt))"
      using job_final_text(1) [OF assms(1,2) that r] by (simp add: read_text_def read_file_def)
    show "transcript_warnings (job_log (process_video e self v s f))
           = filter (\<lambda>i. fragment_of e (job_args self i) = None) [1..mt]"
      using job_final_text(2) [OF assms(1,2) that r] .
  qed
  note reads = aggregation_reads [OF assms(1,2,3)]
  have a: "job_outcome (process_video e self v sched f) = Returned True"
    using assms(3) by (rule ret)
  have b: "read_text (job_fs (process_video e self v sched f)) (final_transcript self v)
           = Some (concat (List.map_filter
                (\<lambda>i. read_text_mode (aggregation_fs e self v sched f)
                       (chunk_transcript (temp_dir self) i)) [1..mt]))"
    unfolding reads(1) using assms(3) by (rule content)
  have c: "transcript_warnings (job_log (process_video e self v sched f))
           = filter (\<lambda>i. \<not> exists_path (aggregation_fs e self v sched f)
                               (chunk_transcript (temp_dir self) i)) [1..mt]"
    unfolding reads(2) using assms(3) by (rule warn)
  have d: "read_text (job_fs (process_video e self v s f)) (final_transcript self v)
               = read_text (job_fs (process_video e self v sched f)) (final_transcript self v)
             \<and> transcript_warnings (job_log (process_video e self v s f))
               = transcript_warnings (job_log (process_video e self v sched f))"
    if "reaches_aggregation e self v s f" for s
    using content [OF that] content [OF assms(3)] warn [OF that] warn [OF assms(3)] by simp
  from a b c d show ?thesis by blast
qed


text \<open>
  A job of three chunks in which the transcription of chunk 2 raises after half of its
  progress: the transcript holds fragments 1 and 3, chunk 2 is warned about, and the schedule
  in which worker 3 returns first leaves the same transcript as the round robin.
\<close>

theorem aggregation_orders_fragments_witness:
  "wf_fs sample_fs
   \<and> reaches_aggregation env_chunk2_fails (sample_self 3) sample_video last_first sample_fs
   \<and> reaches_aggregation env_chunk2_fails (sample_self 3) sample_video (round_robin 30 3) sample_fs
   \<and> is_dir sample_fs (output_dir (sample_self 3))
   \<and> job_outcome (process_video env_chunk2_fails (sample_self 3) sample_video last_first sample_fs)
       = Returned True
   \<and> read_text (job_fs (process_video env_chunk2_fails (sample_self 3) sample_video last_first sample_fs))
        (final_transcript (sample_self 3) sample_video)
       = Some (''chunk_1.mp4'' @ [CHR 0x0A] @ ''chunk_3.mp4'' @ [CHR 0x0A])
   \<and> transcript_warnings
        (job_log (process_video env_chunk2_fails (sample_self 3) sample_video last_first sample_fs))
       = [2]
   \<and> read_text (job_fs (process_video env_chunk2_fails (sample_self 3) sample_video
                           (round_robin 30 3) sample_fs))
        (final_transcript (sample_self 3) sample_video)
       = read_text (job_fs (process_video env_chunk2_fails (sample_self 3) sample_video
                           last_first sample_fs))
        (final_transcript (sample_self 3) sample_video)"
proof -
  let ?e = env_chunk2_fails and ?s = "sample_self 3"
  have s: "?s = VideoTranscriber_init [''app''] 3 ''base'' ''en''"
    by (simp add: sample_self_def)
  have r1: "reaches_aggregation ?e ?s sample_video last_first sample_fs" by code_simp
  have r2: "reaches_aggregation ?e ?s sample_video (round_robin 30 3) sample_fs" by code_simp
  have d: "is_dir sample_fs (output_dir ?s)" by code_simp
  have n: "\<not> is_dir sample_fs (final_transcript ?s sample_video)" by code_simp
  have o: "concat (List.map_filter
                (\<lambda>i. read_text_mode (aggregation_fs ?e ?s sample_video last_first sample_fs)
                       (chunk_transcript (temp_dir ?s) i)) [1..3])
             = ''chunk_1.mp4'' @ [CHR 0x0A] @ ''chunk_3.mp4'' @ [CHR 0x0A]" by code_simp
  have a: "filter (\<lambda>i. \<not> exists_path (aggregation_fs ?e ?s sample_video last_first sample_fs)
                               (chunk_transcript (temp_dir ?s) i)) [1..3] = [2]"
    by code_simp
  note t = aggregation_orders_fragments [OF s wf_sample_fs r1 d n]
  from t have c0: "job_outcome (process_video ?e ?s sample_video last_first sample_fs) = Returned True"
    by (rule conjunct1)
  from t have c1: "read_text (job_fs (process_video ?e ?s sample_video last_first sample_fs))
        (final_transcript ?s sample_video)
       = Some (concat (List.map_filter
                (\<lambda>i. read_text_mode (aggregation_fs ?e ?s sample_video last_first sample_fs)
                       (chunk_transcript (temp_dir ?s) i)) [1..3]))"
    by (rule conjunct1 [OF conjunct2])
  from t have c2: "transcript_warnings (job_log (process_video ?e ?s sample_video last_first sample_fs))
       = filter (\<lambda>i. \<not> exists_path (aggregation_fs ?e ?s sample_video last_first sample_fs)
                               (chunk_transcript (temp_dir ?s) i)) [1..3]"
    by (rule conjunct1 [OF conjunct2 [OF conjunct2]])
  from t r2 have c3: "read_text (job_fs (process_video ?e ?s sample_video (round_robin 30 3) sample_fs))
        (final_transcript ?s sample_video)
       = read_text (job_fs (process_video ?e ?s sample_video last_first sample_fs))
        (final_transcript ?s sample_video)" by blast
  show ?thesis
    using wf_sample_fs r1 r2 d c0 c1 [unfolded o] c2 [unfolded a] c3 by (intro conjI)
qed

text \<open>
  As C2 is written it fails. A fragment is not copied verbatim: a carriage return inside a
  segment is in the fragment file and is a line feed in the final transcript of a job that
  returns True. And an absent fragment does not always get its warning: when worker 1 of two
  fails before it reports progress, fragment 1 is absent, but after forty rounds of the round
  robin the job is still waiting for worker 2, with no warning printed and no final transcript
  written.
\<close>

theorem aggregation_counterexample:
  "job_outcome (process_video env_cr (sample_self 1) sample_video (round_robin 14 1) sample_fs)
       = Returned True
   \<and> read_text (aggregation_fs env_cr (sample_self 1) sample_video (round_robin 14 1) sample_fs)
        (chunk_transcript (temp_dir (sample_self 1)) 1)
       = Some [CHR ''a'', CHR 0x0D, CHR ''b'', CHR 0x0A]
   \<and> read_text (job_fs (process_video env_cr (sample_self 1) sample_video (round_robin 14 1) sample_fs))
        (final_transcript (sample_self 1) sample_video)
       = Some [CHR ''a'', CHR 0x0A, CHR ''b'', CHR 0x0A]
   \<and> fragment_of env_chunk1_fails_early (job_args (sample_self 2) 1) = None
   \<and> job_outcome (process_video env_chunk1_fails_early (sample_self 2) sample_video
         (round_robin 40 2) sample_fs) = Blocked
   \<and> transcript_warnings (job_log (process_video env_chunk1_fails_early (sample_self 2) sample_video
         (round_robin 40 2) sample_fs)) = []
   \<and> \<not> exists_path (job_fs (process_video env_chunk1_fails_early (sample_self 2) sample_video
         (round_robin 40 2) sample_fs)) (final_transcript (sample_self 2) sample_video)"
  by code_simp

text \<open>
  C10. When a job gets to the aggregation, the final transcript is opened for writing whatever
  the workers returned: provided the output directory exists (\<^verbatim>\<open>__init__\<close> creates it) and
  the transcript's path is not a directory, the job returns True and the file holds the
  ordered fragments and nothing of what it held before. When no chunk has a fragment, the
  file is created empty and the job still returns True.
\<close>

theorem final_transcript_always_written:
  assumes "self = VideoTranscriber_init sd mt ms lc"
    and "wf_fs f"
    and "reaches_aggregation e self v sched f"
    and "is_dir f (output_dir self)"
    and "\<not> is_dir f (final_transcript self v)"
  shows "job_outcome (process_video e self v sched f) = Returned True
       \<and> job_fs (process_video e self v sched f) (final_transcript self v)
           = Some (File (Text (concat (ordered_fragments e self mt))))
       \<and> ((\<forall>i. 1 \<le> i \<and> i \<le> mt \<longrightarrow> fragment_of e (job_args self i) = None) \<longrightarrow>
            job_fs (process_video e self v sched f) (final_transcript self v) = Some (File (Text [])))"
proof -
  note facts = init_facts [OF assms(1)]
  obtain g lg where
    frame: "\<forall>q. \<not> prefix (temp_dir self) q \<and> \<not> prefix q (temp_dir self) \<longrightarrow> g q = f q"
    and w: "transcript_warnings lg = []"
    and pv: "process_video e self v sched f =
          (case open_w g (final_transcript self v)
                  (Text (concat (ordered_fragments e self (num_chunk_threads self)))) of
             None \<Rightarrow> \<lparr> job_outcome = Raised open_error, job_fs = g, job_log = lg \<rparr>
           | Some f2 \<Rightarrow>
               \<lparr> job_outcome = Returned True,
                 job_fs = (if cleanup self then remove_temp self f2 else f2),
                 job_log = lg @ map EvTranscriptNotFound
                   (filter (\<lambda>i. fragment_of e (job_args self i) = None)
                      [1..num_chunk_threads self]) \<rparr>)"
    by (rule process_video_aggregates [OF assms(2) facts(1) assms(3)])
  have "g (output_dir self) = f (output_dir self)"
    using frame facts(7,8) by blast
  moreover have "g (final_transcript self v) = f (final_transcript self v)"
    using frame facts(5,6) by blast
  ultimately have "is_dir g (parent (final_transcript self v)) \<and> \<not> is_dir g (final_transcript self v)"
    using assms(4,5) by (simp add: facts(9) is_dir_def)
  then have "open_w g (final_transcript self v)
                  (Text (concat (ordered_fragments e self (num_chunk_threads self)))) \<noteq> None"
    by (simp add: open_w_def)
  then have ret: "job_outcome (process_video e self v sched f) = Returned True"
    by (auto simp add: pv)
  note content = job_final_text(1) [OF assms(1,2,3) ret]
  have "ordered_fragments e self mt = []"
    if "\<forall>i. 1 \<le> i \<and> i \<le> mt \<longrightarrow> fragment_of e (job_args self i) = None"
  proof -
    have "List.map_filter (\<lambda>i. map_option universal_newlines (fragment_of e (job_args self i))) is = []"
      if "\<forall>i\<in>set is. fragment_of e (job_args self i) = None" for "is"
      using that by (induction "is") (simp_all add: List.map_filter_simps)
    with that show ?thesis by (simp add: ordered_fragments_def)
  qed
  with ret content show ?thesis by simp
qed

theorem final_transcript_always_written_witness:
  "wf_fs sample_fs_old
   \<and> reaches_aggregation env_load_fails (sample_self 1) sample_video (round_robin 5 1) sample_fs_old
   \<and> is_dir sample_fs_old (output_dir (sample_self 1))
   \<and> read_text sample_fs_old (final_transcript (sample_self 1) sample_video) = Some ''old transcript''
   \<and> fragment_of env_load_fails (job_args (sample_self 1) 1) = None
   \<and> job_outcome (process_video env_load_fails (sample_self 1) sample_video (round_robin 5 1) sample_fs_old)
       = Returned True
   \<and> job_fs (process_video env_load_fails (sample_self 1) sample_video (round_robin 5 1) sample_fs_old)
        (final_transcript (sample_self 1) sample_video) = Some (File (Text []))"
proof -
  have s: "sample_self 1 = VideoTranscriber_init [''app''] 1 ''base'' ''en''"
    by (simp add: sample_self_def)
  have r: "reaches_aggregation env_load_fails (sample_self 1) sample_video (round_robin 5 1) sample_fs_old"
    by code_simp
  have d: "is_dir sample_fs_old (output_dir (sample_self 1))" by code_simp
  have n: "\<not> is_dir sample_fs_old (final_transcript (sample_self 1) sample_video)" by code_simp
  have old: "read_text sample_fs_old (final_transcript (sample_self 1) sample_video) = Some ''old transcript''"
    by code_simp
  have fr: "fragment_of env_load_fails (job_args (sample_self 1) 1) = None" by code_simp
  then have none: "\<forall>i. 1 \<le> i \<and> i \<le> 1 \<longrightarrow> fragment_of env_load_fails (job_args (sample_self 1) i) = None"
    by (auto simp add: order_antisym [of _ "1::int"])
  note t = final_transcript_always_written [OF s wf_sample_fs_old r d n]
  from t have c1: "job_outcome (process_video env_load_fails (sample_self 1) sample_video
       (round_robin 5 1) sample_fs_old) = Returned True" by (rule conjunct1)
  from t none have c2: "job_fs (process_video env_load_fails (sample_self 1) sample_video
        (round_robin 5 1) sample_fs_old)
        (final_transcript (sample_self 1) sample_video) = Some (File (Text []))" by blast
  show ?thesis
    using wf_sample_fs_old r d old fr c1 c2 by (intro conjI)
qed

subsection \<open>The staggered-start gate\<close>

lemma read_json_exists: "read_json f p = Some d \<Longrightarrow> exists_path f p"
  by (auto simp add: read_json_def read_file_def exists_path_def split: option.splits node.splits fdata.splits)

lemma gate_poll_eq:
  "gate_poll f td i = (if reports_at_least f td (i - 1) 2 then Break else Sleep (1 / 2))"
  by (auto simp add: gate_poll_def reports_at_least_def Let_def dest: read_json_exists
        split: option.splits jval.splits)

lemma pool_after_snoc [simp]:
  "pool_after e self n (steps @ [j]) st = pool_step e self n j (pool_after e self n steps st)"
  by (simp add: pool_after_def)

lemma pool_after_Nil [simp]: "pool_after e self n [] st = st"
  by (simp add: pool_after_def)

lemma pool_step_pc_other:
  "i \<noteq> j \<Longrightarrow> pool_pc (pool_step e self n j st) i = pool_pc st i"
  by (simp add: pool_step_def split_def Let_def)

lemma pool_step_pc_own:
  "pool_pc (pool_step e self n i st) i =
     (if 1 \<le> i \<and> i \<le> n then fst (wstep e (job_args self i) (pool_pc st i) (pool_fs st))
      else pool_pc st i)"
  by (simp add: pool_step_def split_def Let_def)

lemma wstep_gate:
  "wstep e (job_args self i) PGate f =
     (if reports_at_least f (temp_dir self) (i - 1) 2 then PLoading else PGate, f)"
  by (simp add: gate_poll_eq)

lemma gate_respected:
  assumes "1 < i"
  shows "past_gate (pool_pc (pool_after e self n steps (pool_init f0)) i) \<Longrightarrow>
         \<exists>pre. prefix pre steps
           \<and> reports_at_least (pool_fs (pool_after e self n pre (pool_init f0))) (temp_dir self) (i - 1) 2"
proof (induction steps rule: rev_induct)
  case Nil
  then show ?case by (simp add: pool_init_def past_gate_def)
next
  case (snoc j steps)
  let ?st = "pool_after e self n steps (pool_init f0)"
  show ?case
  proof (cases "past_gate (pool_pc ?st i)")
    case True
    with snoc.IH obtain pre where "prefix pre steps"
      and "reports_at_least (pool_fs (pool_after e self n pre (pool_init f0))) (temp_dir self) (i - 1) 2"
      by blast
    then show ?thesis by (meson prefix_order.trans prefixI)
  next
    case False
    then have pc: "pool_pc ?st i = PStart \<or> pool_pc ?st i = PGate"
      by (cases "pool_pc ?st i") (simp_all add: past_gate_def)
    from snoc.prems have pg: "past_gate (pool_pc (pool_step e self n j ?st) i)" by simp
    have ji: "j = i"
    proof (rule ccontr)
      assume "j \<noteq> i"
      then have "pool_pc (pool_step e self n j ?st) i = pool_pc ?st i"
        by (simp add: pool_step_pc_other)
      with pg False show False by simp
    qed
    have range: "1 \<le> i \<and> i \<le> n"
    proof (rule ccontr)
      assume "\<not> (1 \<le> i \<and> i \<le> n)"
      then have "pool_pc (pool_step e self n i ?st) i = pool_pc ?st i"
        by (auto simp add: pool_step_pc_own)
      with pg ji False show False by simp
    qed
    from pg ji range have nxt: "past_gate (fst (wstep e (job_args self i) (pool_pc ?st i) (pool_fs ?st)))"
      by (simp add: pool_step_pc_own)
    from pc show ?thesis
    proof
      assume "pool_pc ?st i = PStart"
      with nxt assms show ?thesis by (simp add: past_gate_def)
    next
      assume "pool_pc ?st i = PGate"
      with nxt have "past_gate (fst (wstep e (job_args self i) PGate (pool_fs ?st)))" by simp
      then have "reports_at_least (pool_fs ?st) (temp_dir self) (i - 1) 2"
        by (simp only: wstep_gate) (simp add: past_gate_def split: if_splits)
      then show ?thesis by (meson prefixI)
    qed
  qed
qed

text \<open>
  C4. For every chunk \<open>i > 1\<close> of a job: one round of the gate breaks out of the loop exactly
  when the progress record of chunk \<open>i - 1\<close> can be read and reports a percent of at least 2,
  and otherwise sleeps 0.5 seconds and polls again; when that record is absent or unreadable
  the worker stays in the loop. Worker \<open>i\<close> enters the loop right after writing
  \<^verbatim>\<open>starting\<close>, and worker 1 goes on to load its model at once. In every interleaving of
  the workers' steps, a worker \<open>i > 1\<close> that has left the loop did so at a moment when the
  record of chunk \<open>i - 1\<close> reported at least 2 percent.
\<close>

theorem staggered_start_gate:
  assumes "1 < i"
  shows "gate_poll f (temp_dir self) i
           = (if reports_at_least f (temp_dir self) (i - 1) 2 then Break else Sleep (1 / 2))
       \<and> (\<not> exists_path f (progress_path (temp_dir self) (i - 1))
            \<or> read_json f (progress_path (temp_dir self) (i - 1)) = None
            \<longrightarrow> wstep e (job_args self i) PGate f = (PGate, f))
       \<and> fst (wstep e (job_args self i) PStart f) = PGate
       \<and> wstep e (job_args self i) PGate f
           = (if reports_at_least f (temp_dir self) (i - 1) 2 then PLoading else PGate, f)
       \<and> fst (wstep e (job_args self 1) PStart f) = PLoading
       \<and> (past_gate (pool_pc (pool_after e self n steps (pool_init f0)) i) \<longrightarrow>
            (\<exists>pre. prefix pre steps
               \<and> reports_at_least (pool_fs (pool_after e self n pre (pool_init f0)))
                    (temp_dir self) (i - 1) 2))"
proof (intro conjI impI)
  show "gate_poll f (temp_dir self) i
           = (if reports_at_least f (temp_dir self) (i - 1) 2 then Break else Sleep (1 / 2))"
    by (rule gate_poll_eq)
  show "wstep e (job_args self i) PGate f = (PGate, f)"
    if "\<not> exists_path f (progress_path (temp_dir self) (i - 1))
            \<or> read_json f (progress_path (temp_dir self) (i - 1)) = None"
  proof -
    from that have "read_json f (progress_path (temp_dir self) (i - 1)) = None"
      using read_json_exists by (cases "read_json f (progress_path (temp_dir self) (i - 1))") auto
    then have "\<not> reports_at_least f (temp_dir self) (i - 1) 2"
      by (simp add: reports_at_least_def)
    then show ?thesis by (simp only: wstep_gate if_False)
  qed
  show "fst (wstep e (job_args self i) PStart f) = PGate"
    using assms by simp
  show "wstep e (job_args self i) PGate f
           = (if reports_at_least f (temp_dir self) (i - 1) 2 then PLoading else PGate, f)"
    by (rule wstep_gate)
  show "fst (wstep e (job_args self 1) PStart f) = PLoading"
    by simp
  show "\<exists>pre. prefix pre steps
               \<and> reports_at_least (pool_fs (pool_after e self n pre (pool_init f0)))
                    (temp_dir self) (i - 1) 2"
    if "past_gate (pool_pc (pool_after e self n steps (pool_init f0)) i)"
    using gate_respected [OF assms that] .
qed

theorem staggered_start_gate_witness:
  "(1::int) < 2
   \<and> past_gate (pool_pc (pool_after sample_env (sample_self 2) 2 [1, 1, 1, 1, 1, 1, 2, 2]
                            (pool_init sample_fs_temp)) 2)
   \<and> \<not> past_gate (pool_pc (pool_after sample_env (sample_self 2) 2 [1, 1, 1, 2, 2, 2]
                            (pool_init sample_fs_temp)) 2)
   \<and> (\<exists>pre. prefix pre [1, 1, 1, 1, 1, 1, 2, 2]
          \<and> reports_at_least (pool_fs (pool_after sample_env (sample_self 2) 2 pre
                (pool_init sample_fs_temp))) (temp_dir (sample_self 2)) (2 - 1) 2)
   \<and> gate_poll sample_fs_temp (temp_dir (sample_self 2)) 2 = Sleep (1 / 2)
   \<and> wstep sample_env (job_args (sample_self 2) 2) PGate sample_fs_temp = (PGate, sample_fs_temp)"
proof -
  have i: "(1::int) < 2" by simp
  have p: "past_gate (pool_pc (pool_after sample_env (sample_self 2) 2 [1, 1, 1, 1, 1, 1, 2, 2]
                            (pool_init sample_fs_temp)) 2)" by code_simp
  have q: "\<not> past_gate (pool_pc (pool_after sample_env (sample_self 2) 2 [1, 1, 1, 2, 2, 2]
                            (pool_init sample_fs_temp)) 2)" by code_simp
  have a: "\<not> exists_path sample_fs_temp (progress_path (temp_dir (sample_self 2)) (2 - 1))"
    by code_simp
  have r: "\<not> reports_at_least sample_fs_temp (temp_dir (sample_self 2)) (2 - 1) 2" by code_simp
  note t = staggered_start_gate [OF i, of sample_fs_temp "sample_self 2" sample_env 2
             "[1, 1, 1, 1, 1, 1, 2, 2]" sample_fs_temp]
  from t p have e: "\<exists>pre. prefix pre [1, 1, 1, 1, 1, 1, 2, 2]
          \<and> reports_at_least (pool_fs (pool_after sample_env (sample_self 2) 2 pre
                (pool_init sample_fs_temp))) (temp_dir (sample_self 2)) (2 - 1) 2" by blast
  from t r have g: "gate_poll sample_fs_temp (temp_dir (sample_self 2)) 2 = Sleep (1 / 2)"
    by simp
  from t a have w: "wstep sample_env (job_args (sample_self 2) 2) PGate sample_fs_temp
     = (PGate, sample_fs_temp)" by blast
  from i p q e g w show ?thesis by (intro conjI)
qed

subsection \<open>A worker that fails before it reports progress\<close>

lemma reports_at_least_cong:
  "f' (progress_path td j) = f (progress_path td j) \<Longrightarrow>
   reports_at_least f' td j k = reports_at_least f td j k"
  by (simp add: reports_at_least_def read_json_def read_file_def)

lemma percent_of_0 [simp]: "percent_of 0 1 = 0"
  by (simp add: percent_of_def py_int_def)

lemma reports_write_zero:
  assumes "\<not> reports_at_least f (temp_dir self) i 2"
  shows "\<not> reports_at_least (write_progress (job_args self i) 0 1 s f) (temp_dir self) i 2"
proof -
  let ?p = "progress_path (temp_dir self) i"
  let ?d = "progress_data i 0 1 s"
  have "write_progress (job_args self i) 0 1 s f = f
        \<or> write_progress (job_args self i) 0 1 s f = f(?p \<mapsto> File (Json ?d))"
    by (auto simp add: write_progress_def write_json_def open_w_def split: option.splits)
  moreover have "\<not> reports_at_least (f(?p \<mapsto> File (Json ?d))) (temp_dir self) i 2"
    by (simp add: reports_at_least_def read_json_def read_file_def get_default_def progress_data_def)
  ultimately show ?thesis using assms by auto
qed

lemma early_step:
  assumes "fails_before_progress e (job_args self i)" and "early_pc e (job_args self i) pc"
    and "\<not> reports_at_least f (temp_dir self) i 2"
  shows "early_pc e (job_args self i) (fst (wstep e (job_args self i) pc f))
       \<and> \<not> reports_at_least (snd (wstep e (job_args self i) pc f)) (temp_dir self) i 2"
proof -
  from assms(2) consider "pc = PStart" | "pc = PGate" | "pc = PLoading" | "pc = PLoadModel"
    | "pc = PLoaded" "loaded e (job_args self i)"
    | "pc = PTranscribe" "loaded e (job_args self i)"
    | msg where "pc = PDone (i, False, Some msg)"
    by (auto simp add: early_pc_def)
  then show ?thesis
  proof cases
    case 1
    then show ?thesis using assms(3) by (simp add: early_pc_def reports_write_zero)
  next
    case 2
    then show ?thesis using assms(3) by (simp add: early_pc_def split: poll.splits)
  next
    case 3
    then show ?thesis using assms(3) by (simp add: early_pc_def reports_write_zero)
  next
    case 4
    then show ?thesis using assms(3) by (simp add: early_pc_def loaded_def split: option.splits)
  next
    case 5
    then show ?thesis using assms(3) by (simp add: early_pc_def reports_write_zero)
  next
    case 6
    then show ?thesis using assms(1,3)
      by (auto simp add: early_pc_def fails_before_progress_def ending_pc_def Let_def loaded_def
            split: option.splits sum.splits)
  next
    case 7
    then show ?thesis using assms(3) by (simp add: early_pc_def)
  qed
qed

lemma stuck_step:
  assumes "fails_before_progress e (job_args self k)" and "1 \<le> k" and "stuck e self k st"
  shows "stuck e self k (pool_step e self n j st)"
proof (cases "1 \<le> j \<and> j \<le> n")
  case False
  then have "pool_step e self n j st = st" by (auto simp add: pool_step_def)
  with assms(3) show ?thesis by simp
next
  case True
  let ?w = "wstep e (job_args self j) (pool_pc st j) (pool_fs st)"
  have fs: "pool_fs (pool_step e self n j st) = snd ?w"
    and pc: "pool_pc (pool_step e self n j st) = (pool_pc st)(j := fst ?w)"
    using True by (simp_all add: pool_step_def split_def Let_def)
  from assms(3) have e1: "early_pc e (job_args self k) (pool_pc st k)"
    and g: "pool_pc st (k + 1) = PStart \<or> pool_pc st (k + 1) = PGate"
    and r: "\<not> reports_at_least (pool_fs st) (temp_dir self) k 2"
    by (simp_all add: stuck_def)
  consider "j = k" | "j = k + 1" | "j \<noteq> k" "j \<noteq> k + 1" by blast
  then show ?thesis
  proof cases
    case 1
    with early_step [OF assms(1) e1 r] g fs pc show ?thesis
      by (simp add: stuck_def)
  next
    case 2
    have same: "snd ?w (progress_path (temp_dir self) k) = pool_fs st (progress_path (temp_dir self) k)"
      using 2 by (intro wstep_frame) simp_all
    have r': "\<not> reports_at_least (snd ?w) (temp_dir self) k 2"
      using r reports_at_least_cong [of "snd ?w" "temp_dir self" k "pool_fs st" 2, OF same] by simp
    from g have "fst ?w = PStart \<or> fst ?w = PGate"
    proof
      assume "pool_pc st (k + 1) = PStart"
      with 2 assms(2) show ?thesis by simp
    next
      assume "pool_pc st (k + 1) = PGate"
      with 2 r show ?thesis by (simp add: gate_poll_eq)
    qed
    with 2 e1 r' fs pc show ?thesis by (simp add: stuck_def)
  next
    case 3
    have same: "snd ?w (progress_path (temp_dir self) k) = pool_fs st (progress_path (temp_dir self) k)"
      using 3 by (intro wstep_frame) simp_all
    have r': "\<not> reports_at_least (snd ?w) (temp_dir self) k 2"
      using r reports_at_least_cong [of "snd ?w" "temp_dir self" k "pool_fs st" 2, OF same] by simp
    with 3 e1 g fs pc show ?thesis by (simp add: stuck_def)
  qed
qed

lemma stuck_waits:
  assumes "fails_before_progress e (job_args self k)" and "1 \<le> k" and "k + 1 \<le> n"
  shows "stuck e self k st \<Longrightarrow> fst (pool_run e self n (map Step steps) st) = Waiting"
proof (induction steps arbitrary: st)
  case Nil
  then have "\<not> is_done (pool_pc st (k + 1))" by (auto simp add: stuck_def is_done_def)
  moreover have "k + 1 \<in> set [1..n]" using assms(2,3) by simp
  ultimately have "\<not> all_returned n st" by (auto simp add: all_returned_def list_all_iff)
  then show ?case by simp
next
  case (Cons j steps)
  then have "\<not> is_done (pool_pc st (k + 1))" by (auto simp add: stuck_def is_done_def)
  moreover have "k + 1 \<in> set [1..n]" using assms(2,3) by simp
  ultimately have "\<not> all_returned n st" by (auto simp add: all_returned_def list_all_iff)
  then show ?case
    using Cons.IH [OF stuck_step [OF assms(1,2) Cons.prems]] by simp
qed

lemma process_video_blocked:
  assumes "fst (split_video_into_chunks e self v (num_chunk_threads self) f) = Ret True"
    and "fst (pool_run e self (num_chunk_threads self) sched
            (pool_init (snd (snd (split_video_into_chunks e self v (num_chunk_threads self) f)))))
          = Waiting"
  shows "process_video e self v sched f =
     \<lparr> job_outcome = Blocked,
       job_fs = pool_fs (snd (pool_run e self (num_chunk_threads self) sched
            (pool_init (snd (snd (split_video_into_chunks e self v (num_chunk_threads self) f)))))),
       job_log = fst (snd (split_video_into_chunks e self v (num_chunk_threads self) f))
                 @ map EvSubmit [1..num_chunk_threads self] \<rparr>"
  using assms by (simp add: process_video_def Let_def)

text \<open>
  C5 fails on the code. The exception of worker 1 is caught and becomes the result
  \<open>(1, False, message)\<close>, but it is raised before chunk 1 reports any progress, so the record
  of chunk 1 stays at 0 percent and worker 2 never leaves its gate: in every interleaving of the
  workers' steps the job is still waiting for worker 2, and no final transcript is written,
  although worker 2 would have produced its fragment.
\<close>

theorem early_failure_blocks_job:
  "fails_before_progress env_chunk1_fails_early (job_args (sample_self 2) 1)
   \<and> pool_results (pool_after env_chunk1_fails_early (sample_self 2) 2 [1, 1, 1, 1, 1]
        (pool_init sample_fs_temp)) = [(1, False, Some ''decode error'')]
   \<and> fragment_of env_chunk1_fails_early (job_args (sample_self 2) 2)
       = Some (''chunk_2.mp4'' @ [CHR 0x0A])
   \<and> (\<forall>steps. job_outcome (process_video env_chunk1_fails_early (sample_self 2) sample_video
                   (map Step steps) sample_fs) = Blocked)
   \<and> (\<forall>steps. \<not> exists_path (job_fs (process_video env_chunk1_fails_early (sample_self 2) sample_video
                   (map Step steps) sample_fs)) (final_transcript (sample_self 2) sample_video))"
proof -
  let ?e = env_chunk1_fails_early and ?s = "sample_self 2"
  let ?sp = "split_video_into_chunks ?e ?s sample_video (num_chunk_threads ?s) sample_fs"
  have s: "?s = VideoTranscriber_init [''app''] 2 ''base'' ''en''" by (simp add: sample_self_def)
  note facts = init_facts [OF s]
  have fb: "fails_before_progress ?e (job_args ?s 1)" by code_simp
  have res: "pool_results (pool_after ?e ?s 2 [1, 1, 1, 1, 1] (pool_init sample_fs_temp))
               = [(1, False, Some ''decode error'')]" by code_simp
  have fr: "fragment_of ?e (job_args ?s 2) = Some (''chunk_2.mp4'' @ [CHR 0x0A])" by code_simp
  have sp: "fst ?sp = Ret True" by code_simp
  have nr: "\<not> reports_at_least (snd (snd ?sp)) (temp_dir ?s) 1 2" by code_simp
  have st0: "stuck ?e ?s 1 (pool_init (snd (snd ?sp)))"
    using nr by (simp add: stuck_def pool_init_def early_pc_def)
  have n2: "(1::int) + 1 \<le> num_chunk_threads ?s" by (simp add: facts(3))
  have w: "fst (pool_run ?e ?s (num_chunk_threads ?s) (map Step steps) (pool_init (snd (snd ?sp)))) = Waiting"
    for steps
    using stuck_waits [OF fb _ n2 st0] by simp
  have blocked: "job_outcome (process_video ?e ?s sample_video (map Step steps) sample_fs) = Blocked"
    for steps
    by (simp add: process_video_blocked [OF sp w])
  have nofinal: "\<not> exists_path (job_fs (process_video ?e ?s sample_video (map Step steps) sample_fs))
                   (final_transcript ?s sample_video)" for steps
  proof -
    let ?q = "final_transcript ?s sample_video"
    have "job_fs (process_video ?e ?s sample_video (map Step steps) sample_fs) ?q
            = pool_fs (snd (pool_run ?e ?s (num_chunk_threads ?s) (map Step steps)
                (pool_init (snd (snd ?sp))))) ?q"
      by (simp add: process_video_blocked [OF sp w])
    also have "\<dots> = pool_fs (pool_init (snd (snd ?sp))) ?q"
      using facts(5,6) by (rule pool_run_frame)
    also have "\<dots> = sample_fs ?q"
      using split_frame [OF facts(5,6)] by (simp add: pool_init_def)
    finally have "job_fs (process_video ?e ?s sample_video (map Step steps) sample_fs) ?q
                    = sample_fs ?q" .
    moreover have "\<not> exists_path sample_fs ?q" by code_simp
    ultimately show ?thesis by (simp add: exists_path_def)
  qed
  from fb res fr blocked nofinal show ?thesis by blast
qed

subsection \<open>Chunk planning\<close>

lemma create_chunk_file:
  assumes "is_dir g td" and "g (chunk_file td i) = None"
  shows "snd (create_chunk e td v n cd i g) (chunk_file td i)
           = (case ffmpeg e (create_chunk_cmd td v n cd i) of
                FfWrote d \<Rightarrow> Some (File d) | _ \<Rightarrow> None)"
proof -
  have "parent (chunk_file td i) = td" by (simp add: parent_def chunk_file_def)
  with assms have "open_w g (chunk_file td i) d = Some (g(chunk_file td i \<mapsto> File d))" for d
    by (simp add: open_w_def is_dir_def)
  moreover have "cmd_output (create_chunk_cmd td v n cd i) = chunk_file td i"
    by (simp add: create_chunk_cmd_def Let_def)
  ultimately show ?thesis
    using assms(2) by (simp add: create_chunk_def Let_def split: ffmpeg_result.splits)
qed

lemma create_chunks_file:
  assumes "distinct is" and "i \<in> set is" and "is_dir g td" and "g (chunk_file td i) = None"
  shows "snd (create_chunks e td v n cd is g) (chunk_file td i)
           = (case ffmpeg e (create_chunk_cmd td v n cd i) of
                FfWrote d \<Rightarrow> Some (File d) | _ \<Rightarrow> None)"
  using assms
proof (induction "is" arbitrary: g)
  case Nil
  then show ?case by simp
next
  case (Cons j rest)
  let ?g1 = "snd (create_chunk e td v n cd j g)"
  have unfold: "snd (create_chunks e td v n cd (j # rest) g) = snd (create_chunks e td v n cd rest ?g1)"
    by (simp add: split_def Let_def)
  show ?case
  proof (cases "j = i")
    case True
    with Cons.prems(1) have "\<forall>k\<in>set rest. chunk_file td i \<noteq> chunk_file td k" by auto
    then have "snd (create_chunks e td v n cd rest ?g1) (chunk_file td i) = ?g1 (chunk_file td i)"
      by (rule create_chunks_frame)
    with True unfold create_chunk_file [OF Cons.prems(3,4)] show ?thesis by simp
  next
    case False
    have td: "td \<noteq> chunk_file td j" by (simp add: chunk_file_def)
    have "?g1 td = g td" using td by (rule create_chunk_frame)
    with Cons.prems(3) have a: "is_dir ?g1 td" by (simp add: is_dir_def)
    have "?g1 (chunk_file td i) = g (chunk_file td i)"
      using False by (intro create_chunk_frame) simp
    with Cons.prems(4) have b: "?g1 (chunk_file td i) = None" by simp
    from Cons.prems(1,2) False have "distinct rest" and "i \<in> set rest" by auto
    then show ?thesis using unfold Cons.IH [OF _ _ a b] by simp
  qed
qed

lemma temp_dir_prepared:
  assumes "wf_fs f" and "temp_dir self \<noteq> []"
  shows "is_dir (mkdir_parents (temp_dir self) (remove_temp self f)) (temp_dir self)"
    and "mkdir_parents (temp_dir self) (remove_temp self f) (chunk_file (temp_dir self) i) = None"
proof -
  have "\<not> exists_path (remove_temp self f) (temp_dir self)"
    using assms by (rule remove_temp_under) simp
  with assms(2) show "is_dir (mkdir_parents (temp_dir self) (remove_temp self f)) (temp_dir self)"
    by (simp add: mkdir_parents_def is_dir_def)
  have "\<not> exists_path (remove_temp self f) (chunk_file (temp_dir self) i)"
    using assms by (rule remove_temp_under) (simp add: chunk_file_def)
  moreover have "\<not> prefix (chunk_file (temp_dir self) i) (temp_dir self)"
    by (simp add: chunk_file_def)
  ultimately show "mkdir_parents (temp_dir self) (remove_temp self f) (chunk_file (temp_dir self) i) = None"
    by (simp add: mkdir_parents_frame exists_path_def split: option.splits)
qed

lemma split_fs_unfold:
  assumes "get_video_duration e f v = Some T" and "1 \<le> N"
  shows "snd (snd (split_video_into_chunks e self v N f))
           = snd (create_chunks e (temp_dir self) v N (chunk_duration_of T N) [1..N]
                   (mkdir_parents (temp_dir self) (remove_temp self f)))"
  by (simp add: split_unfold [OF assms] Let_def split: option.splits)

lemma create_chunk_cmd_eq:
  "create_chunk_cmd td v N cd i =
     \<lparr> cmd_input = v, cmd_ss = binary64 (py_float (i - 1) * cd),
       cmd_t = (if i < N then Some cd else None), cmd_output = chunk_file td i \<rparr>"
  if "i \<le> N"
  using that by (simp add: create_chunk_cmd_def Let_def)

lemma float_exact_plan:
  assumes "float_exact T N" and "1 \<le> i" and "i \<le> N"
  shows "(binary64 (py_float (i - 1) * chunk_duration_of T N),
          if i < N then Some (chunk_duration_of T N) else None) = spec_chunk_plan T N ! nat (i - 1)"
proof -
  from assms(1) have q: "binary64 (T / of_int N) = T / of_int N"
    and all: "\<forall>k\<in>set [0..N]. binary64 (of_int k) = of_int k
                \<and> binary64 (of_int k * (T / of_int N)) = of_int k * (T / of_int N)"
    unfolding float_exact_def list_all_iff by blast+
  from assms(2,3) have "N \<in> set [0..N]" and "i - 1 \<in> set [0..N]" by simp_all
  with all have N: "binary64 (of_int N) = of_int N"
    and i: "binary64 (of_int (i - 1)) = of_int (i - 1)"
    and p: "binary64 (of_int (i - 1) * (T / of_int N)) = of_int (i - 1) * (T / of_int N)"
    by blast+
  have d: "chunk_duration_of T N = T / of_int N"
    unfolding chunk_duration_of_def py_float_def N q ..
  have s: "binary64 (py_float (i - 1) * chunk_duration_of T N) = of_int (i - 1) * (T / of_int N)"
    unfolding d py_float_def i p ..
  have "spec_chunk_plan T N ! nat (i - 1)
          = (of_int (i - 1) * T / of_int N, if i < N then Some (T / of_int N) else None)"
    using assms(2,3) by (simp add: spec_chunk_plan_def nth_upto)
  moreover have "(binary64 (py_float (i - 1) * chunk_duration_of T N),
                  if i < N then Some (chunk_duration_of T N) else None)
                 = (of_int (i - 1) * (T / of_int N), if i < N then Some (T / of_int N) else None)"
    by (subst s) (simp only: d)
  ultimately show ?thesis by simp
qed

text \<open>
  C1, as the code has it. For a source of duration \<open>T\<close> and \<open>N \<ge> 1\<close> chunks,
  \<^verbatim>\<open>split_video_into_chunks\<close> runs one ffmpeg command for each index \<open>1..N\<close> and for no
  other: after the split, chunk file \<open>i\<close> holds what the command with the source as input,
  \<^verbatim>\<open>-ss\<close> the float product of \<open>i - 1\<close> and the float quotient \<open>T / N\<close>, \<^verbatim>\<open>-t\<close> that quotient for
  \<open>i < N\<close> and no \<^verbatim>\<open>-t\<close> for \<open>i = N\<close> wrote (nothing when it wrote nothing or raised), and no
  chunk file of another index exists. The plan of the specification has \<open>N\<close> specs, and
  when no operation rounds, the start and the duration of command \<open>i\<close> are those of its
  spec \<open>i\<close>: \<open>(i - 1) * T / N\<close> and \<open>T / N\<close>, unbounded for \<open>i = N\<close>.
\<close>

theorem split_runs_chunk_plan:
  assumes "get_video_duration e f v = Some T" and "1 \<le> N" and "wf_fs f" and "temp_dir self \<noteq> []"
  shows
   "(\<forall>i. 1 \<le> i \<and> i \<le> N \<longrightarrow>
        snd (snd (split_video_into_chunks e self v N f)) (chunk_file (temp_dir self) i)
          = (case ffmpeg e \<lparr> cmd_input = v,
                              cmd_ss = binary64 (py_float (i - 1) * chunk_duration_of T N),
                              cmd_t = (if i < N then Some (chunk_duration_of T N) else None),
                              cmd_output = chunk_file (temp_dir self) i \<rparr> of
               FfWrote d \<Rightarrow> Some (File d)
             | _ \<Rightarrow> None))
    \<and> (\<forall>i. i < 1 \<or> N < i \<longrightarrow>
          snd (snd (split_video_into_chunks e self v N f)) (chunk_file (temp_dir self) i) = None)
    \<and> length (spec_chunk_plan T N) = nat N
    \<and> (float_exact T N \<longrightarrow>
         (\<forall>i. 1 \<le> i \<and> i \<le> N \<longrightarrow>
             (binary64 (py_float (i - 1) * chunk_duration_of T N),
              if i < N then Some (chunk_duration_of T N) else None)
               = spec_chunk_plan T N ! nat (i - 1)))"
proof -
  let ?td = "temp_dir self"
  let ?f2 = "mkdir_parents ?td (remove_temp self f)"
  let ?F = "snd (snd (split_video_into_chunks e self v N f))"
  have F: "?F = snd (create_chunks e ?td v N (chunk_duration_of T N) [1..N] ?f2)"
    using assms(1,2) by (rule split_fs_unfold)
  have dir: "is_dir ?f2 ?td" and none: "?f2 (chunk_file ?td i) = None" for i
    using temp_dir_prepared [OF assms(3,4)] by simp_all
  have inside: "?F (chunk_file ?td i)
          = (case ffmpeg e \<lparr> cmd_input = v,
                              cmd_ss = binary64 (py_float (i - 1) * chunk_duration_of T N),
                              cmd_t = (if i < N then Some (chunk_duration_of T N) else None),
                              cmd_output = chunk_file ?td i \<rparr> of
               FfWrote d \<Rightarrow> Some (File d)
             | _ \<Rightarrow> None)"
    if "1 \<le> i" and "i \<le> N" for i
  proof -
    from that have "i \<in> set [1..N]" by simp
    then have "?F (chunk_file ?td i)
        = (case ffmpeg e (create_chunk_cmd ?td v N (chunk_duration_of T N) i) of
             FfWrote d \<Rightarrow> Some (File d) | _ \<Rightarrow> None)"
      unfolding F using dir none by (intro create_chunks_file) simp_all
    then show ?thesis using that(2) by (simp only: create_chunk_cmd_eq)
  qed
  have outside: "?F (chunk_file ?td i) = None" if "i < 1 \<or> N < i" for i
  proof -
    from that have "\<forall>k\<in>set [1..N]. chunk_file ?td i \<noteq> chunk_file ?td k" by auto
    then have "?F (chunk_file ?td i) = ?f2 (chunk_file ?td i)"
      unfolding F by (rule create_chunks_frame)
    with none show ?thesis by simp
  qed
  have len: "length (spec_chunk_plan T N) = nat N"
    by (simp add: spec_chunk_plan_def)
  from inside outside len float_exact_plan show ?thesis by blast
qed


text \<open>
  For \<open>T = 300\<close> and \<open>N = 3\<close> nothing rounds, the plan is \<open>(0, 100), (100, 100), (200, unbounded)\<close>
  and the three chunk files are written by the commands of specs 1, 2 and 3.
\<close>

theorem split_runs_chunk_plan_witness:
  "get_video_duration (env_plan 300 3) sample_fs sample_video = Some 300
   \<and> float_exact 300 3
   \<and> spec_chunk_plan 300 3 = [(0, Some 100), (100, Some 100), (200, None)]
   \<and> snd (snd (split_video_into_chunks (env_plan 300 3) (sample_self 3) sample_video 3 sample_fs))
        (chunk_file (temp_dir (sample_self 3)) 1) = Some (File (Media ''spec 1''))
   \<and> snd (snd (split_video_into_chunks (env_plan 300 3) (sample_self 3) sample_video 3 sample_fs))
        (chunk_file (temp_dir (sample_self 3)) 2) = Some (File (Media ''spec 2''))
   \<and> snd (snd (split_video_into_chunks (env_plan 300 3) (sample_self 3) sample_video 3 sample_fs))
        (chunk_file (temp_dir (sample_self 3)) 3) = Some (File (Media ''spec 3''))
   \<and> snd (snd (split_video_into_chunks (env_plan 300 3) (sample_self 3) sample_video 3 sample_fs))
        (chunk_file (temp_dir (sample_self 3)) 4) = None
   \<and> (binary64 (py_float (2 - 1) * chunk_duration_of 300 3),
       if (2::int) < 3 then Some (chunk_duration_of 300 3) else None) = spec_chunk_plan 300 3 ! nat (2 - 1)"
proof -
  let ?e = "env_plan 300 3"
  let ?F = "snd (snd (split_video_into_chunks ?e (sample_self 3) sample_video 3 sample_fs))"
  let ?td = "temp_dir (sample_self 3)"
  have d: "get_video_duration ?e sample_fs sample_video = Some 300" by code_simp
  have td: "?td \<noteq> []" by (simp add: sample_self_def VideoTranscriber_init_def)
  have ex: "float_exact 300 3" by code_simp
  have plan: "spec_chunk_plan 300 3 = [(0, Some 100), (100, Some 100), (200, None)]" by code_simp
  have ff: "ffmpeg ?e c = FfWrote (Media (spec_tag 300 3 c))" for c
    by (simp add: env_plan_def)
  have n: "(1::int) \<le> 3" by simp
  note t = split_runs_chunk_plan [OF d n wf_sample_fs td]
  have c1: "spec_tag 300 3 \<lparr> cmd_input = sample_video,
                cmd_ss = binary64 (py_float (1 - 1) * chunk_duration_of 300 3),
                cmd_t = (if (1::int) < 3 then Some (chunk_duration_of 300 3) else None),
                cmd_output = chunk_file ?td 1 \<rparr> = ''spec 1''" by code_simp
  have c2: "spec_tag 300 3 \<lparr> cmd_input = sample_video,
                cmd_ss = binary64 (py_float (2 - 1) * chunk_duration_of 300 3),
                cmd_t = (if (2::int) < 3 then Some (chunk_duration_of 300 3) else None),
                cmd_output = chunk_file ?td 2 \<rparr> = ''spec 2''" by code_simp
  have c3: "spec_tag 300 3 \<lparr> cmd_input = sample_video,
                cmd_ss = binary64 (py_float (3 - 1) * chunk_duration_of 300 3),
                cmd_t = (if (3::int) < 3 then Some (chunk_duration_of 300 3) else None),
                cmd_output = chunk_file ?td 3 \<rparr> = ''spec 3''" by code_simp
  from t have inside: "\<And>i. 1 \<le> i \<and> i \<le> 3 \<Longrightarrow> ?F (chunk_file ?td i)
          = (case ffmpeg ?e \<lparr> cmd_input = sample_video,
                              cmd_ss = binary64 (py_float (i - 1) * chunk_duration_of 300 3),
                              cmd_t = (if i < 3 then Some (chunk_duration_of 300 3) else None),
                              cmd_output = chunk_file ?td i \<rparr> of
               FfWrote d \<Rightarrow> Some (File d)
             | _ \<Rightarrow> None)"
    and outside: "\<And>i. i < 1 \<or> 3 < i \<Longrightarrow> ?F (chunk_file ?td i) = None"
    and exact: "\<And>i. 1 \<le> i \<and> i \<le> 3 \<Longrightarrow>
             (binary64 (py_float (i - 1) * chunk_duration_of 300 3),
              if i < 3 then Some (chunk_duration_of 300 3) else None)
               = spec_chunk_plan 300 3 ! nat (i - 1)"
    using ex by blast+
  have f1: "?F (chunk_file ?td 1) = Some (File (Media ''spec 1''))"
    using inside [of 1] by (simp only: ff c1) simp
  have f2: "?F (chunk_file ?td 2) = Some (File (Media ''spec 2''))"
    using inside [of 2] by (simp only: ff c2) simp
  have f3: "?F (chunk_file ?td 3) = Some (File (Media ''spec 3''))"
    using inside [of 3] by (simp only: ff c3) simp
  have f4: "?F (chunk_file ?td 4) = None"
    using outside [of 4] by simp
  have e2: "(binary64 (py_float (2 - 1) * chunk_duration_of 300 3),
       if (2::int) < 3 then Some (chunk_duration_of 300 3) else None) = spec_chunk_plan 300 3 ! nat (2 - 1)"
    using exact [of 2] by simp
  from d ex plan f1 f2 f3 f4 e2 show ?thesis by (intro conjI)
qed

text \<open>
  In general the start differs from \<open>(i - 1) * T / N\<close>, and from the float nearest to it.
  For \<open>T = 1\<close> and \<open>N = 5\<close> the fourth command starts at \<^verbatim>\<open>3 * (1.0 / 5) = 0.6000000000000001\<close>,
  not at \<^verbatim>\<open>0.6\<close>; for \<open>T = 1\<close> and \<open>N = 10\<close> at \<^verbatim>\<open>3 * (1.0 / 10) = 0.30000000000000004\<close>, not at
  \<^verbatim>\<open>0.3\<close>.
\<close>

theorem chunk_start_rounding_counterexample:
  "get_video_duration (env_plan 1 5) sample_fs sample_video = Some 1
   \<and> spec_chunk_plan 1 5 ! 3 = (3 / 5, Some (1 / 5))
   \<and> nearest_float (spec_chunk_plan 1 5 ! 3)
       = (5404319552844595 / 9007199254740992, Some (3602879701896397 / 18014398509481984))
   \<and> cmd_ss (create_chunk_cmd (temp_dir (sample_self 5)) sample_video 5 (chunk_duration_of 1 5) 4)
       = 1351079888211149 / 2251799813685248
   \<and> read_media (snd (snd (split_video_into_chunks (env_plan 1 5) (sample_self 5) sample_video 5 sample_fs)))
        (chunk_file (temp_dir (sample_self 5)) 4) = Some ''off plan''
   \<and> cmd_ss (create_chunk_cmd (temp_dir (sample_self 10)) sample_video 10 (chunk_duration_of 1 10) 4)
       = 1351079888211149 / 4503599627370496
   \<and> nearest_float (spec_chunk_plan 1 10 ! 3)
       = (5404319552844595 / 18014398509481984, Some (3602879701896397 / 36028797018963968))"
  by code_simp

subsection \<open>Cleanup after a failed split\<close>

text \<open>
  C9 fails on the code. \<^verbatim>\<open>process_video\<close> returns False as soon as the split reports
  failure, before it gets to the cleanup: with cleanup switched on and every ffmpeg
  invocation raising, the job returns False and leaves the temporary directory, which did
  not exist before, behind. After an interrupt and after a success the directory is removed.
\<close>

theorem split_failure_keeps_temp:
  "cleanup (sample_self 2)
   \<and> job_outcome (process_video env_ffmpeg_raises (sample_self 2) sample_video [] sample_fs)
       = Returned False
   \<and> \<not> exists_path sample_fs (temp_dir (sample_self 2))
   \<and> exists_path (job_fs (process_video env_ffmpeg_raises (sample_self 2) sample_video [] sample_fs))
        (temp_dir (sample_self 2))
   \<and> job_outcome (process_video sample_env (sample_self 2) sample_video
                     (round_robin 3 2 @ [CtrlC]) sample_fs) = Returned False
   \<and> \<not> exists_path (job_fs (process_video sample_env (sample_self 2) sample_video
                     (round_robin 3 2 @ [CtrlC]) sample_fs)) (temp_dir (sample_self 2))
   \<and> job_outcome (process_video sample_env (sample_self 1) sample_video (round_robin 14 1) sample_fs)
       = Returned True
   \<and> \<not> exists_path (job_fs (process_video sample_env (sample_self 1) sample_video
                     (round_robin 14 1) sample_fs)) (temp_dir (sample_self 1))"
  by code_simp

subsection \<open>Two jobs in flight\<close>

lemma two_jobs_reach:
  "run_reach (sample_self 2) [sample_video, sample_video2]
     \<lparr> queued = [], running = [sample_video, sample_video2] \<rparr>"
proof -
  have a: "run_reach (sample_self 2) [sample_video, sample_video2]
             \<lparr> queued = [sample_video, sample_video2], running = [] \<rparr>"
    using run_reach.init [of "sample_self 2" "[sample_video, sample_video2]"]
    by (simp add: run_init_def)
  have m: "max_threads (sample_self 2) = 2"
    by (simp add: sample_self_def VideoTranscriber_init_def)
  have "run_step (sample_self 2) \<lparr> queued = [sample_video, sample_video2], running = [] \<rparr>
          \<lparr> queued = [sample_video2], running = [sample_video] \<rparr>"
    using run_step.start [of "\<lparr> queued = [sample_video, sample_video2], running = [] \<rparr>"
            sample_video "[sample_video2]" "sample_self 2"]
    by (simp add: m)
  with a have b: "run_reach (sample_self 2) [sample_video, sample_video2]
                    \<lparr> queued = [sample_video2], running = [sample_video] \<rparr>"
    by (rule run_reach.step)
  have "run_step (sample_self 2) \<lparr> queued = [sample_video2], running = [sample_video] \<rparr>
          \<lparr> queued = [], running = [sample_video, sample_video2] \<rparr>"
    using run_step.start [of "\<lparr> queued = [sample_video2], running = [sample_video] \<rparr>"
            sample_video2 "[]" "sample_self 2"]
    by (simp add: m)
  with b show ?thesis
    by (rule run_reach.step)
qed

text \<open>
  C7 fails on the code. With \<^verbatim>\<open>max_threads = 2\<close> and two videos, \<^verbatim>\<open>run\<close> has both jobs in
  flight at once, and both use the one \<^verbatim>\<open>self.temp_dir\<close>: chunk file, progress record and
  fragment of chunk \<open>i\<close> have the same paths in the two jobs. The split of the second job
  removes the directory and replaces chunk 1 of the first job by its own.
\<close>

theorem jobs_share_temp_dir:
  "run_reach (sample_self 2) [sample_video, sample_video2]
     \<lparr> queued = [], running = [sample_video, sample_video2] \<rparr>
   \<and> sample_video \<noteq> sample_video2
   \<and> (\<forall>i. job_files (sample_self 2) sample_video i = job_files (sample_self 2) sample_video2 i)
   \<and> read_media (snd (snd (split_video_into_chunks env_tagged (sample_self 2) sample_video 2 sample_fs2)))
        (chunk_file (temp_dir (sample_self 2)) 1) = Some ''talk.mp4''
   \<and> read_media
        (snd (snd (split_video_into_chunks env_tagged (sample_self 2) sample_video2 2
           (snd (snd (split_video_into_chunks env_tagged (sample_self 2) sample_video 2 sample_fs2))))))
        (chunk_file (temp_dir (sample_self 2)) 1) = Some ''demo.mp4''"
proof -
  have a: "sample_video \<noteq> sample_video2" by (simp add: sample_video_def sample_video2_def)
  have b: "\<forall>i. job_files (sample_self 2) sample_video i = job_files (sample_self 2) sample_video2 i"
    by (simp add: job_files_def)
  have c: "read_media (snd (snd (split_video_into_chunks env_tagged (sample_self 2) sample_video 2 sample_fs2)))
        (chunk_file (temp_dir (sample_self 2)) 1) = Some ''talk.mp4''" by code_simp
  have d: "read_media
        (snd (snd (split_video_into_chunks env_tagged (sample_self 2) sample_video2 2
           (snd (snd (split_video_into_chunks env_tagged (sample_self 2) sample_video 2 sample_fs2))))))
        (chunk_file (temp_dir (sample_self 2)) 1) = Some ''demo.mp4''" by code_simp
  from two_jobs_reach a b c d show ?thesis by (intro conjI)
qed

end
